theory Spec2Isabelle
  imports Main
begin

section \<open>Messages of the websocket hub\<close>

text \<open>
  The development embeds the publish/subscribe hub of package \<open>pubsub\<close>:
  the per-client subscription sets and transaction buffer, the hub's registry and
  its \<open>Run\<close> loop, and the per-connection send and receive loops of
  \<open>PubSubHub\<close>. Calls to the logger have no effect on any value and are left out.
\<close>

text \<open>
  Modelled from the spec: the type \<open>pstypes.HubSignal\<close> is declared in package
  \<open>pubsub/types\<close>, whose file is not among the sources. The nine constants are the
  ones the hub names; \<open>SigUnknown\<close> stands for every other integer value, which
  \<open>Run\<close> meets in the \<open>default\<close> branch of its switch.
\<close>

datatype HubSignal =
    SigSubscribe
  | SigUnsubscribe
  | SigNewBlock
  | SigMempoolUpdate
  | SigPingAndUserCount
  | SigNewTx
  | SigNewTxs
  | SigAddressTx
  | SigSyncStatus
  | SigUnknown

text \<open>
  Modelled from the spec: \<open>pstypes.AddressMessage\<close> (address and transaction hash)
  and \<open>exptypes.MempoolTx\<close>, of which the hub reads the hash only.
\<close>

record AddressMessage =
  Address :: string
  TxHash :: string

datatype MempoolTx = MempoolTx (Hash: string)

text \<open>
  The field \<open>Msg\<close> of a hub message is an \<open>interface{}\<close>. The constructors are
  the dynamic types the code tells apart by type assertion; a pointer carries
  \<open>None\<close> when it is nil. \<open>AddressMessageVal\<close> is an address message stored by value
  rather than by pointer, as in the test of \<open>subscribe\<close>.
\<close>

datatype Payload =
    NilMsg
  | AddressMessagePtr "AddressMessage option"
  | AddressMessageVal AddressMessage
  | MempoolTxPtr "MempoolTx option"
  | MempoolTxSlice "MempoolTx list"
  | OtherMsg

record HubMessage =
  Signal :: HubSignal
  Msg :: Payload

text \<open>
  What can go wrong at run time: the three panics the hub's code can raise, and the two
  errors \<open>subscribe\<close> and \<open>unsubscribe\<close> return (their text names the dynamic type
  of the payload).
\<close>

datatype panic =
    NilDereference
  | SendOnClosedChannel
  | CloseOfClosedChannel

datatype error =
    NotAString Payload
  | NotAnAddressMessage Payload

section \<open>The client: subscriptions and transaction buffer\<close>

definition NewTxBufferSize :: nat where
  "NewTxBufferSize = 5"

definition clientSignalSize :: nat where
  "clientSignalSize = 5"

definition MaxPayloadBytes :: nat where
  "MaxPayloadBytes = 2 ^ 20"

text \<open>
  \<open>txList\<close>: a mutex and the slice \<open>t\<close>. \<open>newTxList\<close> allocates an empty slice;
  its argument is the capacity reserved for the slice, which \<open>append\<close> grows past.
\<close>

type_synonym txList = "MempoolTx list"

definition newTxList :: "nat \<Rightarrow> txList" where
  "newTxList cap = []"

text \<open>\<open>(*txList).addTxToBuffer\<close>: the flag returned and the list after the append.\<close>

definition txList_addTxToBuffer :: "MempoolTx \<Rightarrow> txList \<Rightarrow> bool \<times> txList" where
  "txList_addTxToBuffer tx txl =
     (let t = txl @ [tx] in (length t \<ge> NewTxBufferSize, t))"

record client =
  subs :: "HubSignal set"
  addrs :: "string set"
  newTxs :: txList

definition newClient :: client where
  "newClient = \<lparr> subs = {}, addrs = {}, newTxs = newTxList NewTxBufferSize \<rparr>"

text \<open>
  \<open>(*client).isSubscribed\<close>. The type assertion to \<open>*AddressMessage\<close> succeeds on a
  nil pointer of that type, and reading \<open>am.Address\<close> through it panics.
\<close>

definition isSubscribed :: "client \<Rightarrow> HubMessage \<Rightarrow> panic + bool" where
  "isSubscribed c msg =
     (if Signal msg \<notin> subs c then Inr False
      else (case Signal msg of
              SigAddressTx \<Rightarrow>
                (case Msg msg of
                   AddressMessagePtr (Some am) \<Rightarrow> Inr (Address am \<in> addrs c)
                 | AddressMessagePtr None \<Rightarrow> Inl NilDereference
                 | _ \<Rightarrow> Inr False)
            | _ \<Rightarrow> Inr True))"

text \<open>
  Whether a call of \<open>isSubscribed\<close> writes to the error log: the one \<open>log.Errorf\<close>
  of the function is reached when the signal is subscribed, it is \<open>SigAddressTx\<close>,
  and the type assertion fails.
\<close>

definition isSubscribed_logs :: "client \<Rightarrow> HubMessage \<Rightarrow> bool" where
  "isSubscribed_logs c msg =
     (if Signal msg \<notin> subs c then False
      else (case Signal msg of
              SigAddressTx \<Rightarrow>
                (case Msg msg of
                   AddressMessagePtr am \<Rightarrow> False
                 | _ \<Rightarrow> True)
            | _ \<Rightarrow> False))"

text \<open>
  \<open>(*client).subscribe\<close> and \<open>(*client).unsubscribe\<close>: the error returned (\<open>None\<close>
  for nil) and the client afterwards.
\<close>

definition subscribe :: "client \<Rightarrow> HubMessage \<Rightarrow> panic + (error option \<times> client)" where
  "subscribe c msg =
     (case Signal msg of
        SigAddressTx \<Rightarrow>
          (case Msg msg of
             AddressMessagePtr (Some am) \<Rightarrow>
               Inr (None, c\<lparr> addrs := insert (Address am) (addrs c),
                               subs := insert (Signal msg) (subs c) \<rparr>)
           | AddressMessagePtr None \<Rightarrow> Inl NilDereference
           | m \<Rightarrow> Inr (Some (NotAString m), c))
      | _ \<Rightarrow> Inr (None, c\<lparr> subs := insert (Signal msg) (subs c) \<rparr>))"

definition unsubscribe :: "client \<Rightarrow> HubMessage \<Rightarrow> panic + (error option \<times> client)" where
  "unsubscribe c msg =
     (case Signal msg of
        SigAddressTx \<Rightarrow>
          (case Msg msg of
             AddressMessagePtr (Some am) \<Rightarrow>
               Inr (None, c\<lparr> addrs := addrs c - {Address am},
                               subs := subs c - {Signal msg} \<rparr>)
           | AddressMessagePtr None \<Rightarrow> Inl NilDereference
           | m \<Rightarrow> Inr (Some (NotAnAddressMessage m), c))
      | _ \<Rightarrow> Inr (None, c\<lparr> subs := subs c - {Signal msg} \<rparr>))"

definition unsubscribeAll :: "client \<Rightarrow> client" where
  "unsubscribeAll c = c\<lparr> subs := {}, addrs := {} \<rparr>"


text \<open>
  The part of \<open>sendLoop\<close>'s \<open>sigNewTxs\<close> case that runs under the buffer's lock:
  an empty buffer is left alone and nothing is sent (\<open>None\<close>); otherwise the
  buffer's content is what is encoded, and the buffer is replaced by a new empty slice.
\<close>

definition drainNewTxs :: "txList \<Rightarrow> txList option \<times> txList" where
  "drainNewTxs t =
     (if length t = 0 then (None, t) else (Some t, newTxList NewTxBufferSize))"

section \<open>Channels and the hub's registry\<close>

text \<open>
  A \<open>hubSpoke\<close> is a channel of hub messages, and the registry is keyed by pointers to
  such channels. A pointer is an address; the field \<open>spokes\<close> of the hub's state is the
  store the addresses point into (no channel at an address: the pointer is nil). A
  channel is its capacity, the messages queued in it, and whether it is closed.
\<close>

type_synonym hubSpoke = nat

record chan =
  chan_cap :: nat
  chan_buf :: "HubMessage list"
  chan_closed :: bool

definition make_chan :: "nat \<Rightarrow> chan" where
  "make_chan n = \<lparr> chan_cap = n, chan_buf = [], chan_closed = False \<rparr>"

text \<open>
  \<open>select { case ch <- m: default: }\<close>: the send goes through when the queue has room
  (\<open>Some\<close> the channel afterwards), the default branch is taken when it is full
  (\<open>None\<close>), and a send on a closed channel panics.
\<close>

definition trySend :: "chan \<Rightarrow> HubMessage \<Rightarrow> panic + chan option" where
  "trySend ch m =
     (if chan_closed ch then Inl SendOnClosedChannel
      else if length (chan_buf ch) < chan_cap ch
           then Inr (Some (ch\<lparr> chan_buf := chan_buf ch @ [m] \<rparr>))
           else Inr None)"

definition close_chan :: "chan \<Rightarrow> panic + chan" where
  "close_chan ch =
     (if chan_closed ch then Inl CloseOfClosedChannel
      else Inr (ch\<lparr> chan_closed := True \<rparr>))"

datatype tickerSig = tickerSigReset | tickerSigStop

text \<open>
  \<open>WebsocketHub\<close>. The client a key maps to is the state of the object the stored
  pointer refers to. \<open>bufferTickerChan\<close> holds the signals sent to the ticker
  goroutine, in the order they were sent; the channel has room for
  \<open>clientSignalSize\<close> signals, and a send waits for the ticker goroutine to take
  one when it is full, which the state does not show. \<open>nextSpoke\<close> is the next
  address \<open>make\<close> hands out, and \<open>quitClosed\<close> says whether \<open>quitWSHandler\<close>
  has been closed.
\<close>

record WebsocketHub =
  clients :: "hubSpoke \<rightharpoonup> client"
  spokes :: "hubSpoke \<rightharpoonup> chan"
  nextSpoke :: hubSpoke
  numClients :: nat
  bufferTickerChan :: "tickerSig list"
  timeToSendTxBuffer :: bool
  quitClosed :: bool
  requestLimit :: nat

definition NewWebsocketHub :: WebsocketHub where
  "NewWebsocketHub =
     \<lparr> clients = Map.empty, spokes = Map.empty, nextSpoke = 0, numClients = 0,
       bufferTickerChan = [], timeToSendTxBuffer = False, quitClosed = False,
       requestLimit = MaxPayloadBytes \<rparr>"

text \<open>\<open>clientHubSpoke\<close>, with its fields \<open>cl\<close> and \<open>c\<close>.\<close>

record clientHubSpoke =
  spoke_cl :: client
  spoke_c :: hubSpoke

definition registerClient :: "clientHubSpoke \<Rightarrow> WebsocketHub \<Rightarrow> WebsocketHub" where
  "registerClient ch h =
     (let m = (clients h)(spoke_c ch \<mapsto> spoke_cl ch)
      in h\<lparr> clients := m, numClients := card (dom m) \<rparr>)"

text \<open>
  \<open>NewClientHubSpoke\<close> makes a channel of capacity 16 and a new client, and sends the
  pair on \<open>Register\<close>; the send returns when \<open>Run\<close> has received it and called
  \<open>registerClient\<close>.
\<close>

definition NewClientHubSpoke :: "WebsocketHub \<Rightarrow> clientHubSpoke \<times> WebsocketHub" where
  "NewClientHubSpoke h =
     (let k = nextSpoke h;
          ch = \<lparr> spoke_cl = newClient, spoke_c = k \<rparr>;
          h1 = h\<lparr> spokes := (spokes h)(k \<mapsto> make_chan 16), nextSpoke := Suc k \<rparr>
      in (ch, registerClient ch h1))"

definition unregisterClient :: "hubSpoke \<Rightarrow> WebsocketHub \<Rightarrow> panic + WebsocketHub" where
  "unregisterClient k h =
     (case clients h k of
        None \<Rightarrow> Inr h
      | Some _ \<Rightarrow>
          (let m = (clients h)(k := None);
               h1 = h\<lparr> clients := m, numClients := card (dom m) \<rparr>
           in case spokes h1 k of
                None \<Rightarrow> Inl NilDereference
              | Some ch \<Rightarrow>
                  (case close_chan ch of
                     Inl p \<Rightarrow> Inl p
                   | Inr ch' \<Rightarrow> Inr (h1\<lparr> spokes := (spokes h1)(k \<mapsto> ch') \<rparr>))))"

text \<open>
  A \<open>range\<close> over the registry visits its keys in an order Go leaves open. Every
  function that ranges over the registry takes the order as a list of keys, and the
  theorems hold for each list that enumerates the registry's keys once. A key whose
  entry was deleted before the loop reached it is not visited.

  \<open>unregisterAllClients\<close> collects the keys and then deletes each entry and closes
  its channel.
\<close>

fun unregisterAllClients :: "hubSpoke list \<Rightarrow> WebsocketHub \<Rightarrow> panic + WebsocketHub" where
  "unregisterAllClients [] h = Inr h"
| "unregisterAllClients (k # ks) h =
     (let h1 = h\<lparr> clients := (clients h)(k := None) \<rparr>
      in case spokes h1 k of
           None \<Rightarrow> Inl NilDereference
         | Some ch \<Rightarrow>
             (case close_chan ch of
                Inl p \<Rightarrow> Inl p
              | Inr ch' \<Rightarrow> unregisterAllClients ks (h1\<lparr> spokes := (spokes h1)(k \<mapsto> ch') \<rparr>)))"

text \<open>
  \<open>(*WebsocketHub).addTxToBuffer\<close>: the loop assigns the flag of each client's append
  to \<open>someReadyToSend\<close>, which starts as false; \<open>addTxToBuffer_loop\<close> carries the
  variable.
\<close>

fun addTxToBuffer_loop ::
  "hubSpoke list \<Rightarrow> MempoolTx \<Rightarrow> bool \<Rightarrow> WebsocketHub \<Rightarrow> bool \<times> WebsocketHub" where
  "addTxToBuffer_loop [] tx someReadyToSend h = (someReadyToSend, h)"
| "addTxToBuffer_loop (k # ks) tx someReadyToSend h =
     (case clients h k of
        None \<Rightarrow> addTxToBuffer_loop ks tx someReadyToSend h
      | Some cl \<Rightarrow>
          (let (r, t) = txList_addTxToBuffer tx (newTxs cl)
           in addTxToBuffer_loop ks tx r
                (h\<lparr> clients := (clients h)(k \<mapsto> cl\<lparr> newTxs := t \<rparr>) \<rparr>)))"

definition addTxToBuffer ::
  "hubSpoke list \<Rightarrow> MempoolTx \<Rightarrow> WebsocketHub \<Rightarrow> bool \<times> WebsocketHub" where
  "addTxToBuffer ks tx h = addTxToBuffer_loop ks tx False h"

definition MaybeSendTxns ::
  "hubSpoke list \<Rightarrow> MempoolTx \<Rightarrow> WebsocketHub \<Rightarrow> bool \<times> WebsocketHub" where
  "MaybeSendTxns ks tx h =
     (let (someReadyToSend, h1) = addTxToBuffer ks tx h
      in if someReadyToSend
         then (someReadyToSend,
               h1\<lparr> bufferTickerChan := bufferTickerChan h1 @ [tickerSigReset] \<rparr>)
         else (someReadyToSend, h1))"


section \<open>The event loop\<close>

text \<open>
  The loop at the end of the \<open>HubRelay\<close> case of \<open>Run\<close>: every registered client
  that is subscribed to the message gets it on its channel, or is unregistered when
  the channel takes no more. \<open>signalOrUnregister\<close> is the body of the loop for the
  entry at one key.
\<close>

definition signalOrUnregister ::
  "hubSpoke \<Rightarrow> HubMessage \<Rightarrow> WebsocketHub \<Rightarrow> panic + WebsocketHub" where
  "signalOrUnregister k hubMsg h =
     (case clients h k of
        None \<Rightarrow> Inr h
      | Some cl \<Rightarrow>
          (case isSubscribed cl hubMsg of
             Inl p \<Rightarrow> Inl p
           | Inr False \<Rightarrow> Inr h
           | Inr True \<Rightarrow>
               (case spokes h k of
                  None \<Rightarrow> Inl NilDereference
                | Some ch \<Rightarrow>
                    (case trySend ch hubMsg of
                       Inl p \<Rightarrow> Inl p
                     | Inr (Some ch') \<Rightarrow> Inr (h\<lparr> spokes := (spokes h)(k \<mapsto> ch') \<rparr>)
                     | Inr None \<Rightarrow> unregisterClient k h))))"

fun fanOut :: "hubSpoke list \<Rightarrow> HubMessage \<Rightarrow> WebsocketHub \<Rightarrow> panic + WebsocketHub" where
  "fanOut [] hubMsg h = Inr h"
| "fanOut (k # ks) hubMsg h =
     (case signalOrUnregister k hubMsg h of
        Inl p \<Rightarrow> Inl p
      | Inr h' \<Rightarrow> fanOut ks hubMsg h')"

text \<open>
  The rest of the \<open>HubRelay\<close> case after the switch on the signal: the fan-out, and
  the reset of the flush flag when the message sent was \<open>sigNewTxs\<close>.
\<close>

definition signalClients ::
  "hubSpoke list \<Rightarrow> HubMessage \<Rightarrow> WebsocketHub \<Rightarrow> panic + WebsocketHub" where
  "signalClients ks hubMsg h =
     (case fanOut ks hubMsg h of
        Inl p \<Rightarrow> Inl p
      | Inr h' \<Rightarrow>
          Inr (if Signal hubMsg = SigNewTxs then h'\<lparr> timeToSendTxBuffer := False \<rparr> else h'))"

text \<open>
  The \<open>HubRelay\<close> case of \<open>Run\<close> for a message received from the open channel.
  \<open>IsValid\<close> is the method \<open>HubMessage.IsValid\<close> of package \<open>pubsub/types\<close>,
  which is not among the sources: it is a parameter. \<open>ks1\<close> is the order of the
  range in \<open>addTxToBuffer\<close>, \<open>ks2\<close> the order of the fan-out. \<open>sigNewTxs\<close> and
  unknown signals take the \<open>default\<close> branch of the switch.
\<close>

definition relay ::
  "(HubMessage \<Rightarrow> bool) \<Rightarrow> hubSpoke list \<Rightarrow> hubSpoke list \<Rightarrow> HubMessage \<Rightarrow>
     WebsocketHub \<Rightarrow> panic + WebsocketHub" where
  "relay IsValid ks1 ks2 hubMsg h =
     (if card (dom (clients h)) = 0 then Inr h
      else if \<not> IsValid hubMsg then Inr h
      else (case Signal hubMsg of
              SigNewBlock \<Rightarrow> signalClients ks2 hubMsg h
            | SigPingAndUserCount \<Rightarrow> signalClients ks2 hubMsg h
            | SigMempoolUpdate \<Rightarrow> signalClients ks2 hubMsg h
            | SigAddressTx \<Rightarrow>
                (case Msg hubMsg of
                   AddressMessagePtr (Some addrMsg) \<Rightarrow> signalClients ks2 hubMsg h
                 | _ \<Rightarrow> Inr h)
            | SigNewTx \<Rightarrow>
                (case Msg hubMsg of
                   MempoolTxPtr (Some newtx) \<Rightarrow>
                     (let (someTxBuffersReady, h1) = MaybeSendTxns ks1 newtx h
                      in if \<not> (someTxBuffersReady \<or> timeToSendTxBuffer h1) then Inr h1
                         else signalClients ks2
                                \<lparr> Signal = SigNewTxs, Msg = MempoolTxSlice [] \<rparr> h1)
                 | _ \<Rightarrow> Inr h)
            | SigSubscribe \<Rightarrow> Inr h
            | SigUnsubscribe \<Rightarrow> Inr h
            | SigSyncStatus \<Rightarrow> signalClients ks2 hubMsg h
            | _ \<Rightarrow> Inr h))"

text \<open>
  Modelled from the spec: \<open>HubMessage.IsValid\<close> of package \<open>pubsub/types\<close> is not
  among the sources. The spec makes validity a function of the kind and of whether
  the payload's type matches the kind; the payload types are the ones the hub asserts
  for \<open>sigAddressTx\<close> and \<open>sigNewTx\<close> and the one it stores for \<open>sigNewTxs\<close> "to be a
  valid message". It is used where a theorem evaluates the loop on concrete messages.
\<close>

definition HubMessage_IsValid :: "HubMessage \<Rightarrow> bool" where
  "HubMessage_IsValid m =
     (case Signal m of
        SigUnknown \<Rightarrow> False
      | SigAddressTx \<Rightarrow> (case Msg m of AddressMessagePtr _ \<Rightarrow> True | _ \<Rightarrow> False)
      | SigNewTx \<Rightarrow> (case Msg m of MempoolTxPtr _ \<Rightarrow> True | _ \<Rightarrow> False)
      | SigNewTxs \<Rightarrow> (case Msg m of MempoolTxSlice _ \<Rightarrow> True | _ \<Rightarrow> False)
      | _ \<Rightarrow> True)"


section \<open>The send and receive loops of a connection\<close>

text \<open>
  What \<open>sendLoop\<close> writes to the connection for one signal: which of its encoders
  produced the message. \<open>BlockBody\<close> and \<open>MempoolBody\<close> are the encoding of the
  current block and of the mempool summary (the empty message when there is none).
\<close>

datatype PushBody =
    AddressBody "AddressMessage option"
  | BlockBody
  | MempoolBody
  | UserCount nat
  | TxsBody "MempoolTx list"

text \<open>
  \<open>sendLoop\<close> for one signal taken from the open channel: the message pushed
  (\<open>None\<close> when the loop continues without sending) and the client afterwards.
  \<open>n\<close> is the hub's \<open>NumClients()\<close>. The loop returns when the write fails; that
  changes nothing in the client.
\<close>

definition sendLoop_signal ::
  "(HubMessage \<Rightarrow> bool) \<Rightarrow> nat \<Rightarrow> client \<Rightarrow> HubMessage \<Rightarrow>
     panic + (PushBody option \<times> client)" where
  "sendLoop_signal IsValid n cl sig =
     (if \<not> IsValid sig then Inr (None, cl)
      else (case isSubscribed cl sig of
              Inl p \<Rightarrow> Inl p
            | Inr False \<Rightarrow> Inr (None, cl)
            | Inr True \<Rightarrow>
                (case Signal sig of
                   SigAddressTx \<Rightarrow>
                     (case Msg sig of
                        AddressMessagePtr am \<Rightarrow> Inr (Some (AddressBody am), cl)
                      | _ \<Rightarrow> Inr (None, cl))
                 | SigNewBlock \<Rightarrow> Inr (Some BlockBody, cl)
                 | SigMempoolUpdate \<Rightarrow> Inr (Some MempoolBody, cl)
                 | SigPingAndUserCount \<Rightarrow> Inr (Some (UserCount n), cl)
                 | SigNewTxs \<Rightarrow>
                     (case drainNewTxs (newTxs cl) of
                        (None, t) \<Rightarrow> Inr (None, cl)
                      | (Some txs, t) \<Rightarrow> Inr (Some (TxsBody txs), cl\<lparr> newTxs := t \<rparr>))
                 | _ \<Rightarrow> Inr (None, cl))))"

record WebSocketMessage =
  EventId :: string
  Message :: string

text \<open>
  What \<open>websocket.JSON.Receive\<close> gave the receive loop: a message, a timeout of the
  read deadline, or another error. The loop receives into a pointer to the pointer
  \<open>msg\<close>, and the JSON value \<open>null\<close> is received without error and sets \<open>msg\<close>
  to nil: that is \<open>RecvNull\<close>.
\<close>

datatype Received = RecvMsg WebSocketMessage | RecvNull | RecvTimeout | RecvError string

text \<open>
  The three calls \<open>receiveLoop\<close> makes for \<open>decodetx\<close>, \<open>sendtx\<close> and
  \<open>getmempooltxs\<close>: an error text on the left, the text of the result on the right
  (\<open>None\<close> when the result could not be encoded as JSON).
\<close>

record wsDataSource =
  DecodeRawTransaction :: "string \<Rightarrow> string + string option"
  SendRawTransaction :: "string \<Rightarrow> string + string"
  MempoolInventoryJSON :: "string option"

datatype LoopCtl = Continue | Return

text \<open>
  The response of one iteration is sent at the end of the loop body; when the send
  fails (\<open>sendOk\<close> false) the loop returns.
\<close>

definition sendResp ::
  "bool \<Rightarrow> WebSocketMessage \<Rightarrow> string \<Rightarrow> client \<Rightarrow>
     panic + (LoopCtl \<times> WebSocketMessage option \<times> client)" where
  "sendResp sendOk msg text cl =
     Inr (if sendOk then Continue else Return,
          Some \<lparr> EventId = EventId msg @ ''Resp'', Message = text \<rparr>, cl)"

text \<open>
  One iteration of \<open>receiveLoop\<close>: whether the loop goes on, the response written to
  the connection (\<open>None\<close> when nothing is written), and the client afterwards. After
  a receive that left \<open>msg\<close> nil, the read of \<open>msg.EventId\<close> for the response
  panics.
  \<open>ValidateSubscription\<close> is a function of package \<open>pubsub/types\<close>, which is not
  among the sources: it is a parameter, with \<open>None\<close> for an invalid subscription.
\<close>

definition receiveLoop_body ::
  "(string \<Rightarrow> (HubSignal \<times> Payload) option) \<Rightarrow> wsDataSource \<Rightarrow> WebsocketHub \<Rightarrow> bool \<Rightarrow>
     Received \<Rightarrow> client \<Rightarrow> panic + (LoopCtl \<times> WebSocketMessage option \<times> client)" where
  "receiveLoop_body ValidateSubscription src wsHub sendOk r cl =
     (case r of
        RecvTimeout \<Rightarrow> Inr (Continue, None, cl)
      | RecvError e \<Rightarrow> Inr (Return, None, cl)
      | RecvNull \<Rightarrow> Inl NilDereference
      | RecvMsg msg \<Rightarrow>
          if length (Message msg) > requestLimit wsHub then Inr (Continue, None, cl)
          else if EventId msg = ''subscribe'' then
            (case ValidateSubscription (Message msg) of
               None \<Rightarrow> sendResp sendOk msg ''invalid subscription'' cl
             | Some (sig, sigMsg) \<Rightarrow>
                 (case subscribe cl \<lparr> Signal = sig, Msg = sigMsg \<rparr> of
                    Inl p \<Rightarrow> Inl p
                  | Inr (Some err, cl') \<Rightarrow> sendResp sendOk msg ''invalid subscription'' cl'
                  | Inr (None, cl') \<Rightarrow>
                      sendResp sendOk msg (Message msg @ '' subscribe ok'') cl'))
          else if EventId msg = ''unsubscribe'' then
            (case ValidateSubscription (Message msg) of
               None \<Rightarrow> sendResp sendOk msg ''invalid subscription'' cl
             | Some (sig, sigMsg) \<Rightarrow>
                 (case unsubscribe cl \<lparr> Signal = sig, Msg = sigMsg \<rparr> of
                    Inl p \<Rightarrow> Inl p
                  | Inr (Some err, cl') \<Rightarrow> sendResp sendOk msg ''invalid subscription'' cl'
                  | Inr (None, cl') \<Rightarrow>
                      sendResp sendOk msg (Message msg @ '' unsubscribe ok'') cl'))
          else if EventId msg = ''decodetx'' then
            (case DecodeRawTransaction src (Message msg) of
               Inr (Some b) \<Rightarrow> sendResp sendOk msg b cl
             | Inr None \<Rightarrow> sendResp sendOk msg ''Error: Could not encode JSON message'' cl
             | Inl err \<Rightarrow> sendResp sendOk msg (''Error: '' @ err) cl)
          else if EventId msg = ''sendtx'' then
            (case SendRawTransaction src (Message msg) of
               Inl err \<Rightarrow> sendResp sendOk msg (''Error: '' @ err) cl
             | Inr txid \<Rightarrow> sendResp sendOk msg (''Transaction sent: '' @ txid) cl)
          else if EventId msg = ''getmempooltxs'' then
            (case MempoolInventoryJSON src of
               None \<Rightarrow> sendResp sendOk msg ''Error: Could not encode JSON message'' cl
             | Some b \<Rightarrow> sendResp sendOk msg b cl)
          else if EventId msg = ''ping'' then Inr (Continue, None, cl)
          else Inr (Continue, None, cl))"

section \<open>The run loop over a sequence of events\<close>

text \<open>
  The first five events are the cases of the \<open>select\<close> in \<open>Run\<close>: a message or the
  closing of \<open>HubRelay\<close>, a registration, an unregistration, and the quit channel.
  They carry the orders in which the registry is ranged over. The other events are
  what the other goroutines do to the state the hub shares with them, between two
  iterations of the loop: the ticker sets the flush flag, a receive loop subscribes,
  unsubscribes or (when it returns) clears the subscriptions of its client, and a
  send loop takes the next signal from its channel and handles it.
\<close>

datatype event =
    RelayRecv HubMessage "hubSpoke list" "hubSpoke list"
  | RelayClosed "hubSpoke list"
  | RegisterRecv
  | UnregisterRecv hubSpoke
  | QuitRecv "hubSpoke list"
  | TickerFired
  | ClientSubscribe hubSpoke HubMessage
  | ClientUnsubscribe hubSpoke HubMessage
  | ClientUnsubscribeAll hubSpoke
  | SendLoopRecv hubSpoke

datatype RunState = Running WebsocketHub | Stopped WebsocketHub | Panicked panic

text \<open>
  The deferred calls of \<open>Run\<close>, in the order they run: all clients are
  unregistered; what is left on \<open>HubRelay\<close> is then read and dropped.
\<close>

definition Run_return :: "hubSpoke list \<Rightarrow> WebsocketHub \<Rightarrow> RunState" where
  "Run_return ks h =
     (case unregisterAllClients ks h of Inl p \<Rightarrow> Panicked p | Inr h' \<Rightarrow> Stopped h')"

definition continue_with :: "panic + WebsocketHub \<Rightarrow> RunState" where
  "continue_with r = (case r of Inl p \<Rightarrow> Panicked p | Inr h \<Rightarrow> Running h)"

definition set_client :: "hubSpoke \<Rightarrow> client \<Rightarrow> WebsocketHub \<Rightarrow> WebsocketHub" where
  "set_client k cl h = h\<lparr> clients := (clients h)(k \<mapsto> cl) \<rparr>"

definition step :: "(HubMessage \<Rightarrow> bool) \<Rightarrow> event \<Rightarrow> WebsocketHub \<Rightarrow> RunState" where
  "step IsValid e h =
     (case e of
        RelayRecv hubMsg ks1 ks2 \<Rightarrow> continue_with (relay IsValid ks1 ks2 hubMsg h)
      | RelayClosed ks \<Rightarrow> Run_return ks h
      | RegisterRecv \<Rightarrow> Running (snd (NewClientHubSpoke h))
      | UnregisterRecv k \<Rightarrow> continue_with (unregisterClient k h)
      | QuitRecv ks \<Rightarrow>
          if quitClosed h then Run_return ks h
          else Run_return ks
                 (h\<lparr> quitClosed := True,
                     bufferTickerChan := bufferTickerChan h @ [tickerSigStop] \<rparr>)
      | TickerFired \<Rightarrow> Running (h\<lparr> timeToSendTxBuffer := True \<rparr>)
      | ClientSubscribe k m \<Rightarrow>
          (case clients h k of
             None \<Rightarrow> Running h
           | Some cl \<Rightarrow>
               (case subscribe cl m of
                  Inl p \<Rightarrow> Panicked p
                | Inr (err, cl') \<Rightarrow> Running (set_client k cl' h)))
      | ClientUnsubscribe k m \<Rightarrow>
          (case clients h k of
             None \<Rightarrow> Running h
           | Some cl \<Rightarrow>
               (case unsubscribe cl m of
                  Inl p \<Rightarrow> Panicked p
                | Inr (err, cl') \<Rightarrow> Running (set_client k cl' h)))
      | ClientUnsubscribeAll k \<Rightarrow>
          (case clients h k of
             None \<Rightarrow> Running h
           | Some cl \<Rightarrow> Running (set_client k (unsubscribeAll cl) h))
      | SendLoopRecv k \<Rightarrow>
          (case spokes h k of
             None \<Rightarrow> Running h
           | Some ch \<Rightarrow>
               (case chan_buf ch of
                  [] \<Rightarrow> Running h
                | sig # rest \<Rightarrow>
                    (let h1 = h\<lparr> spokes := (spokes h)(k \<mapsto> ch\<lparr> chan_buf := rest \<rparr>) \<rparr>
                     in case clients h1 k of
                          None \<Rightarrow> Running h1
                        | Some cl \<Rightarrow>
                            (case sendLoop_signal IsValid (numClients h1) cl sig of
                               Inl p \<Rightarrow> Panicked p
                             | Inr (push, cl') \<Rightarrow> Running (set_client k cl' h1))))))"

text \<open>
  \<open>Run\<close> on the events that arrive, starting from the hub \<open>h\<close>. \<open>Running\<close> is the
  loop waiting in its \<open>select\<close> when the events are used up; once the loop has
  returned, the events that follow are not looked at.
\<close>

fun Run :: "(HubMessage \<Rightarrow> bool) \<Rightarrow> event list \<Rightarrow> WebsocketHub \<Rightarrow> RunState" where
  "Run IsValid [] h = Running h"
| "Run IsValid (e # es) h =
     (case step IsValid e h of
        Running h' \<Rightarrow> Run IsValid es h'
      | Stopped h' \<Rightarrow> Stopped h'
      | Panicked p \<Rightarrow> Panicked p)"

section \<open>Notions used in the statements\<close>

text \<open>
  Appending a sequence of transactions to a buffer one at a time: the flags the
  appends return, in order, and the buffer afterwards.
\<close>

fun addTxs :: "MempoolTx list \<Rightarrow> txList \<Rightarrow> bool list \<times> txList" where
  "addTxs [] t = ([], t)"
| "addTxs (tx # txs) t =
     (let (r, t1) = txList_addTxToBuffer tx t;
          (rs, t2) = addTxs txs t1
      in (r # rs, t2))"

text \<open>
  The message \<open>Run\<close> relays in place of a single new transaction.
\<close>

definition newTxsMsg :: HubMessage where
  "newTxsMsg = \<lparr> Signal = SigNewTxs, Msg = MempoolTxSlice [] \<rparr>"




text \<open>
  The registry's invariant: every registered key points to a channel that is open and
  has the capacity \<open>NewClientHubSpoke\<close> gives it.
\<close>

definition registry_open :: "WebsocketHub \<Rightarrow> bool" where
  "registry_open h =
     (\<forall>k. clients h k \<noteq> None \<longrightarrow>
          (\<exists>ch. spokes h k = Some ch \<and> \<not> chan_closed ch \<and> chan_cap ch = 16))"

text \<open>
  What one round of the fan-out makes of a registered client and its open channel:
  the registry's entry and the channel afterwards.
\<close>

definition outcome :: "HubMessage \<Rightarrow> client \<Rightarrow> chan \<Rightarrow> client option \<times> chan" where
  "outcome m cl ch =
     (if isSubscribed cl m = Inr True
      then (if length (chan_buf ch) < chan_cap ch
            then (Some cl, ch\<lparr> chan_buf := chan_buf ch @ [m] \<rparr>)
            else (None, ch\<lparr> chan_closed := True \<rparr>))
      else (Some cl, ch))"

text \<open>
  Two things read off the hub while the loop runs: the transaction buffer of the
  client registered at a key, and the messages queued in the channel at a key.
\<close>

definition newTxsOf :: "hubSpoke \<Rightarrow> RunState \<Rightarrow> txList option" where
  "newTxsOf k r = (case r of Running h \<Rightarrow> map_option newTxs (clients h k) | _ \<Rightarrow> None)"

definition chanBufOf :: "hubSpoke \<Rightarrow> RunState \<Rightarrow> HubMessage list option" where
  "chanBufOf k r = (case r of Running h \<Rightarrow> map_option chan_buf (spokes h k) | _ \<Rightarrow> None)"

definition newTx :: "string \<Rightarrow> HubMessage" where
  "newTx s = \<lparr> Signal = SigNewTx, Msg = MempoolTxPtr (Some (MempoolTx s)) \<rparr>"

section \<open>Example states and runs\<close>

text \<open>
  A new-block message without payload, as \<open>Store\<close> sends it, and a client
  subscribed to new blocks.
\<close>

definition blockMsg :: HubMessage where
  "blockMsg = \<lparr> Signal = SigNewBlock, Msg = NilMsg \<rparr>"

definition blockClient :: client where
  "blockClient = \<lparr> subs = {SigNewBlock}, addrs = {}, newTxs = [] \<rparr>"

text \<open>A client subscribed to the batched transactions, with an empty buffer.\<close>

definition newTxsClient :: client where
  "newTxsClient = \<lparr> subs = {SigNewTxs}, addrs = {}, newTxs = [] \<rparr>"

text \<open>
  Three clients register and the first two subscribe to new blocks. Sixteen new
  blocks are then relayed; the send loop of the second client takes each signal from
  its channel, the send loop of the first client takes none. \<open>threeClients\<close> is the
  hub after these events: the channel of the first client is filled to its capacity.
\<close>

definition threeClientsEvents :: "event list" where
  "threeClientsEvents =
     [RegisterRecv, RegisterRecv, RegisterRecv,
      ClientSubscribe 0 blockMsg, ClientSubscribe 1 blockMsg]
     @ concat (replicate 16 [RelayRecv blockMsg [0, 1, 2] [0, 1, 2], SendLoopRecv 1])"

definition fullChan :: chan where
  "fullChan = \<lparr> chan_cap = 16, chan_buf = replicate 16 blockMsg, chan_closed = False \<rparr>"

definition threeClients :: WebsocketHub where
  "threeClients =
     \<lparr> clients = [2 \<mapsto> newClient, 0 \<mapsto> blockClient, 1 \<mapsto> blockClient],
       spokes = [2 \<mapsto> make_chan 16, 0 \<mapsto> fullChan, 1 \<mapsto> make_chan 16],
       nextSpoke = 3, numClients = 3, bufferTickerChan = [], timeToSendTxBuffer = False,
       quitClosed = False, requestLimit = MaxPayloadBytes \<rparr>"

text \<open>
  Two clients register, the first subscribes to new blocks, and a new block is
  relayed; \<open>twoClients\<close> is the hub after these events.
\<close>

definition twoClientsEvents :: "event list" where
  "twoClientsEvents =
     [RegisterRecv, RegisterRecv, ClientSubscribe 0 blockMsg, RelayRecv blockMsg [0, 1] [1, 0]]"

definition twoClients :: WebsocketHub where
  "twoClients =
     \<lparr> clients = [1 \<mapsto> newClient, 0 \<mapsto> blockClient],
       spokes = [1 \<mapsto> make_chan 16, 0 \<mapsto> (make_chan 16)\<lparr> chan_buf := [blockMsg] \<rparr>],
       nextSpoke = 2, numClients = 2, bufferTickerChan = [], timeToSendTxBuffer = False,
       quitClosed = False, requestLimit = MaxPayloadBytes \<rparr>"

text \<open>
  A client registers, subscribes to the batched transactions and gets four
  transactions in its buffer; a second client then registers and subscribes, and a
  fifth transaction arrives. The ticker does not fire. \<open>ks\<close> is the order in which
  \<open>addTxToBuffer\<close> ranges over the two clients for the fifth transaction.
\<close>

definition lateClientEvents :: "hubSpoke list \<Rightarrow> event list" where
  "lateClientEvents ks =
     [RegisterRecv, ClientSubscribe 0 \<lparr> Signal = SigNewTxs, Msg = NilMsg \<rparr>,
      RelayRecv (newTx ''a'') [0] [0], RelayRecv (newTx ''b'') [0] [0],
      RelayRecv (newTx ''c'') [0] [0], RelayRecv (newTx ''d'') [0] [0],
      RegisterRecv, ClientSubscribe 1 \<lparr> Signal = SigNewTxs, Msg = NilMsg \<rparr>,
      RelayRecv (newTx ''e'') ks [0, 1]]"

section \<open>Properties\<close>

text \<open>The equations that evaluate a run on concrete events.\<close>

lemmas run_eval = Run.simps step_def relay_def continue_with_def NewClientHubSpoke_def
  NewWebsocketHub_def registerClient_def Let_def HubMessage_IsValid_def MaybeSendTxns_def
  addTxToBuffer_def txList_addTxToBuffer_def NewTxBufferSize_def newClient_def newTxList_def
  signalClients_def signalOrUnregister_def isSubscribed_def trySend_def make_chan_def
  set_client_def subscribe_def newTx_def newTxsOf_def chanBufOf_def


subsection \<open>Subscriptions\<close>

text \<open>
  C8, as the code has it. \<open>isSubscribed\<close> on an address event that carries an
  address message is true exactly when the address kind is in the subscribed kinds
  and the event's address is in the subscribed addresses; on every other kind it is
  true exactly when the kind is subscribed; and on an address event whose payload has
  another type than a pointer to an address message it is false, and the error is
  logged exactly when the address kind is subscribed. None of the three panics.
\<close>

theorem isSubscribed_spec:
  "(Signal msg = SigAddressTx \<and> Msg msg = AddressMessagePtr (Some am) \<longrightarrow>
      isSubscribed cl msg = Inr (SigAddressTx \<in> subs cl \<and> Address am \<in> addrs cl))
   \<and> (Signal msg \<noteq> SigAddressTx \<longrightarrow>
      isSubscribed cl msg = Inr (Signal msg \<in> subs cl))
   \<and> (Signal msg = SigAddressTx \<and> (\<forall>p. Msg msg \<noteq> AddressMessagePtr p) \<longrightarrow>
      isSubscribed cl msg = Inr False
      \<and> isSubscribed_logs cl msg = (SigAddressTx \<in> subs cl))"
  by (cases "Signal msg"; cases "Msg msg")
     (auto simp add: isSubscribed_def isSubscribed_logs_def)

theorem isSubscribed_spec_witness:
  "isSubscribed \<lparr> subs = {SigAddressTx, SigNewBlock}, addrs = {''Addr1''}, newTxs = [] \<rparr>
     \<lparr> Signal = SigAddressTx,
       Msg = AddressMessagePtr (Some \<lparr> Address = ''Addr1'', TxHash = ''h1'' \<rparr>) \<rparr> = Inr True
   \<and> isSubscribed \<lparr> subs = {SigAddressTx, SigNewBlock}, addrs = {''Addr1''}, newTxs = [] \<rparr>
        \<lparr> Signal = SigAddressTx,
          Msg = AddressMessagePtr (Some \<lparr> Address = ''Addr2'', TxHash = ''h1'' \<rparr>) \<rparr> = Inr False
   \<and> isSubscribed \<lparr> subs = {SigAddressTx, SigNewBlock}, addrs = {''Addr1''}, newTxs = [] \<rparr>
        \<lparr> Signal = SigNewBlock, Msg = NilMsg \<rparr> = Inr True
   \<and> isSubscribed \<lparr> subs = {SigAddressTx, SigNewBlock}, addrs = {''Addr1''}, newTxs = [] \<rparr>
        \<lparr> Signal = SigMempoolUpdate, Msg = NilMsg \<rparr> = Inr False
   \<and> isSubscribed \<lparr> subs = {SigAddressTx, SigNewBlock}, addrs = {''Addr1''}, newTxs = [] \<rparr>
        \<lparr> Signal = SigAddressTx,
          Msg = AddressMessageVal \<lparr> Address = ''Addr1'', TxHash = ''h1'' \<rparr> \<rparr> = Inr False
   \<and> isSubscribed_logs
        \<lparr> subs = {SigAddressTx, SigNewBlock}, addrs = {''Addr1''}, newTxs = [] \<rparr>
        \<lparr> Signal = SigAddressTx,
          Msg = AddressMessageVal \<lparr> Address = ''Addr1'', TxHash = ''h1'' \<rparr> \<rparr>"
  using
    isSubscribed_spec [of "\<lparr> Signal = SigAddressTx,
        Msg = AddressMessagePtr (Some \<lparr> Address = ''Addr1'', TxHash = ''h1'' \<rparr>) \<rparr>"
      "\<lparr> Address = ''Addr1'', TxHash = ''h1'' \<rparr>"
      "\<lparr> subs = {SigAddressTx, SigNewBlock}, addrs = {''Addr1''}, newTxs = [] \<rparr>"]
    isSubscribed_spec [of "\<lparr> Signal = SigAddressTx,
        Msg = AddressMessagePtr (Some \<lparr> Address = ''Addr2'', TxHash = ''h1'' \<rparr>) \<rparr>"
      "\<lparr> Address = ''Addr2'', TxHash = ''h1'' \<rparr>"
      "\<lparr> subs = {SigAddressTx, SigNewBlock}, addrs = {''Addr1''}, newTxs = [] \<rparr>"]
    isSubscribed_spec [of "\<lparr> Signal = SigNewBlock, Msg = NilMsg \<rparr>" undefined
      "\<lparr> subs = {SigAddressTx, SigNewBlock}, addrs = {''Addr1''}, newTxs = [] \<rparr>"]
    isSubscribed_spec [of "\<lparr> Signal = SigMempoolUpdate, Msg = NilMsg \<rparr>" undefined
      "\<lparr> subs = {SigAddressTx, SigNewBlock}, addrs = {''Addr1''}, newTxs = [] \<rparr>"]
    isSubscribed_spec [of "\<lparr> Signal = SigAddressTx,
        Msg = AddressMessageVal \<lparr> Address = ''Addr1'', TxHash = ''h1'' \<rparr> \<rparr>" undefined
      "\<lparr> subs = {SigAddressTx, SigNewBlock}, addrs = {''Addr1''}, newTxs = [] \<rparr>"]
  by simp

text \<open>
  C8 as stated fails on two payloads that are no well-formed address message. A nil
  pointer to an address message passes the type assertion, and \<open>isSubscribed\<close> of a
  client subscribed to the address kind panics when it reads the address through it
  (\<open>Run\<close> drops such an event before it asks). And for a client that is not
  subscribed to the address kind, a payload of the wrong type yields false at the
  first test, and nothing is logged.
\<close>

theorem isSubscribed_nil_pointer_counterexample:
  "isSubscribed \<lparr> subs = {SigAddressTx}, addrs = {''Addr1''}, newTxs = [] \<rparr>
     \<lparr> Signal = SigAddressTx, Msg = AddressMessagePtr None \<rparr> = Inl NilDereference
   \<and> isSubscribed \<lparr> subs = {}, addrs = {}, newTxs = [] \<rparr>
        \<lparr> Signal = SigAddressTx, Msg = NilMsg \<rparr> = Inr False
   \<and> \<not> isSubscribed_logs \<lparr> subs = {}, addrs = {}, newTxs = [] \<rparr>
          \<lparr> Signal = SigAddressTx, Msg = NilMsg \<rparr>"
  by (simp add: isSubscribed_def isSubscribed_logs_def)

text \<open>
  C10. A client subscribed to address events for two distinct addresses \<open>A\<close> and \<open>B\<close>
  that unsubscribes from \<open>A\<close> loses the address kind altogether: \<open>isSubscribed\<close> is
  then false for an address event of \<open>B\<close>, although \<open>B\<close> is still in the client's
  set of addresses.
\<close>

theorem unsubscribe_one_address_drops_kind:
  assumes "A \<noteq> B" and "SigAddressTx \<in> subs cl" and "A \<in> addrs cl" and "B \<in> addrs cl"
  shows "isSubscribed cl \<lparr> Signal = SigAddressTx,
             Msg = AddressMessagePtr (Some \<lparr> Address = B, TxHash = hB \<rparr>) \<rparr> = Inr True
       \<and> (\<exists>cl'. unsubscribe cl \<lparr> Signal = SigAddressTx,
                    Msg = AddressMessagePtr (Some \<lparr> Address = A, TxHash = hA \<rparr>) \<rparr>
                  = Inr (None, cl')
              \<and> SigAddressTx \<notin> subs cl'
              \<and> B \<in> addrs cl'
              \<and> isSubscribed cl' \<lparr> Signal = SigAddressTx,
                    Msg = AddressMessagePtr (Some \<lparr> Address = B, TxHash = hB \<rparr>) \<rparr>
                  = Inr False)"
  using assms by (simp add: unsubscribe_def isSubscribed_def)

theorem unsubscribe_one_address_drops_kind_witness:
  "''Addr1'' \<noteq> ''Addr2''
   \<and> SigAddressTx \<in> subs \<lparr> subs = {SigAddressTx}, addrs = {''Addr1'', ''Addr2''}, newTxs = [] \<rparr>
   \<and> ''Addr1'' \<in> addrs \<lparr> subs = {SigAddressTx}, addrs = {''Addr1'', ''Addr2''}, newTxs = [] \<rparr>
   \<and> ''Addr2'' \<in> addrs \<lparr> subs = {SigAddressTx}, addrs = {''Addr1'', ''Addr2''}, newTxs = [] \<rparr>
   \<and> unsubscribe \<lparr> subs = {SigAddressTx}, addrs = {''Addr1'', ''Addr2''}, newTxs = [] \<rparr>
        \<lparr> Signal = SigAddressTx,
          Msg = AddressMessagePtr (Some \<lparr> Address = ''Addr1'', TxHash = ''h1'' \<rparr>) \<rparr>
       = Inr (None, \<lparr> subs = {}, addrs = {''Addr2''}, newTxs = [] \<rparr>)
   \<and> isSubscribed \<lparr> subs = {}, addrs = {''Addr2''}, newTxs = [] \<rparr>
        \<lparr> Signal = SigAddressTx,
          Msg = AddressMessagePtr (Some \<lparr> Address = ''Addr2'', TxHash = ''h2'' \<rparr>) \<rparr>
       = Inr False"
  using unsubscribe_one_address_drops_kind [of "''Addr1''" "''Addr2''"
      "\<lparr> subs = {SigAddressTx}, addrs = {''Addr1'', ''Addr2''}, newTxs = [] \<rparr>" "''h2''" "''h1''"]
  by (auto simp add: unsubscribe_def)

text \<open>
  C7, as the code has it. For a well-formed request (any kind but the address kind,
  or the address kind with an address message) subscribing twice gives the state of
  subscribing once and succeeds both times, and unsubscribing succeeds. Unsubscribing
  changes nothing when the kind is not in the subscribed kinds and, for the address
  kind, the address is not in the subscribed addresses.
\<close>

theorem subscribe_twice_unsubscribe_absent:
  "((\<exists>am. Msg m = AddressMessagePtr (Some am)) \<or> Signal m \<noteq> SigAddressTx \<longrightarrow>
      (\<exists>c1. subscribe cl m = Inr (None, c1) \<and> subscribe c1 m = Inr (None, c1))
      \<and> (\<exists>c2. unsubscribe cl m = Inr (None, c2)))
   \<and> (Signal m \<noteq> SigAddressTx \<and> Signal m \<notin> subs cl \<longrightarrow>
      unsubscribe cl m = Inr (None, cl))
   \<and> (Signal m = SigAddressTx \<and> Msg m = AddressMessagePtr (Some am)
        \<and> SigAddressTx \<notin> subs cl \<and> Address am \<notin> addrs cl \<longrightarrow>
      unsubscribe cl m = Inr (None, cl))"
  by (cases "Signal m") (auto simp add: subscribe_def unsubscribe_def insert_absorb)

theorem subscribe_twice_unsubscribe_absent_witness:
  "subscribe newClient \<lparr> Signal = SigAddressTx,
       Msg = AddressMessagePtr (Some \<lparr> Address = ''Addr1'', TxHash = [] \<rparr>) \<rparr>
     = Inr (None, \<lparr> subs = {SigAddressTx}, addrs = {''Addr1''}, newTxs = [] \<rparr>)
   \<and> subscribe \<lparr> subs = {SigAddressTx}, addrs = {''Addr1''}, newTxs = [] \<rparr>
        \<lparr> Signal = SigAddressTx,
          Msg = AddressMessagePtr (Some \<lparr> Address = ''Addr1'', TxHash = [] \<rparr>) \<rparr>
     = Inr (None, \<lparr> subs = {SigAddressTx}, addrs = {''Addr1''}, newTxs = [] \<rparr>)
   \<and> SigNewBlock \<notin> subs newClient
   \<and> unsubscribe newClient \<lparr> Signal = SigNewBlock, Msg = NilMsg \<rparr> = Inr (None, newClient)
   \<and> SigAddressTx \<notin> subs newClient
   \<and> ''Addr1'' \<notin> addrs newClient
   \<and> unsubscribe newClient \<lparr> Signal = SigAddressTx,
          Msg = AddressMessagePtr (Some \<lparr> Address = ''Addr1'', TxHash = [] \<rparr>) \<rparr>
     = Inr (None, newClient)"
  using
    subscribe_twice_unsubscribe_absent [of "\<lparr> Signal = SigAddressTx,
        Msg = AddressMessagePtr (Some \<lparr> Address = ''Addr1'', TxHash = [] \<rparr>) \<rparr>" newClient
        "\<lparr> Address = ''Addr1'', TxHash = [] \<rparr>"]
    subscribe_twice_unsubscribe_absent [of "\<lparr> Signal = SigNewBlock, Msg = NilMsg \<rparr>" newClient
        undefined]
  by (auto simp add: newClient_def newTxList_def subscribe_def)

text \<open>
  C7 as stated fails: a client subscribed to address \<open>A\<close> alone is not subscribed to
  address \<open>B\<close>, yet unsubscribing from \<open>B\<close> changes its state, and the client no
  longer gets the events of \<open>A\<close>.
\<close>

theorem unsubscribe_absent_address_counterexample:
  "isSubscribed \<lparr> subs = {SigAddressTx}, addrs = {''A''}, newTxs = [] \<rparr>
     \<lparr> Signal = SigAddressTx,
       Msg = AddressMessagePtr (Some \<lparr> Address = ''B'', TxHash = [] \<rparr>) \<rparr> = Inr False
   \<and> isSubscribed \<lparr> subs = {SigAddressTx}, addrs = {''A''}, newTxs = [] \<rparr>
     \<lparr> Signal = SigAddressTx,
       Msg = AddressMessagePtr (Some \<lparr> Address = ''A'', TxHash = [] \<rparr>) \<rparr> = Inr True
   \<and> unsubscribe \<lparr> subs = {SigAddressTx}, addrs = {''A''}, newTxs = [] \<rparr>
     \<lparr> Signal = SigAddressTx,
       Msg = AddressMessagePtr (Some \<lparr> Address = ''B'', TxHash = [] \<rparr>) \<rparr>
     = Inr (None, \<lparr> subs = {}, addrs = {''A''}, newTxs = [] \<rparr>)
   \<and> unsubscribe \<lparr> subs = {SigAddressTx}, addrs = {''A''}, newTxs = [] \<rparr>
     \<lparr> Signal = SigAddressTx,
       Msg = AddressMessagePtr (Some \<lparr> Address = ''B'', TxHash = [] \<rparr>) \<rparr>
     \<noteq> Inr (None, \<lparr> subs = {SigAddressTx}, addrs = {''A''}, newTxs = [] \<rparr>)
   \<and> isSubscribed \<lparr> subs = {}, addrs = {''A''}, newTxs = [] \<rparr>
     \<lparr> Signal = SigAddressTx,
       Msg = AddressMessagePtr (Some \<lparr> Address = ''A'', TxHash = [] \<rparr>) \<rparr> = Inr False"
  by (simp add: isSubscribed_def unsubscribe_def)

subsection \<open>The transaction buffer\<close>

lemma addTxs_eq:
  "addTxs txs t =
     (map (\<lambda>i. NewTxBufferSize \<le> length t + i + 1) [0..<length txs], t @ txs)"
proof (induction txs arbitrary: t)
  case Nil
  show ?case by simp
next
  case (Cons tx txs)
  have "map (\<lambda>i. NewTxBufferSize \<le> length t + i + 1) [0..<Suc (length txs)]
        = (NewTxBufferSize \<le> length t + 1)
          # map (\<lambda>i. NewTxBufferSize \<le> length (t @ [tx]) + i + 1) [0..<length txs]"
    by (simp add: upt_conv_Cons map_Suc_upt[symmetric] del: upt_Suc)
  then show ?case
    by (simp add: Cons.IH txList_addTxToBuffer_def del: upt_Suc)
qed



lemma sendLoop_signal_newTxs:
  assumes "IsValid newTxsMsg" and "SigNewTxs \<in> subs cl"
  shows "sendLoop_signal IsValid n cl newTxsMsg =
           Inr (if newTxs cl = [] then None else Some (TxsBody (newTxs cl)),
                cl\<lparr> newTxs := [] \<rparr>)"
proof (cases "newTxs cl = []")
  case True
  then have "cl\<lparr> newTxs := [] \<rparr> = cl" by simp
  with True assms show ?thesis
    by (simp add: sendLoop_signal_def isSubscribed_def newTxsMsg_def drainNewTxs_def)
next
  case False
  with assms show ?thesis
    by (simp add: sendLoop_signal_def isSubscribed_def newTxsMsg_def drainNewTxs_def
        newTxList_def)
qed

text \<open>
  C4. Appending as many transactions as the buffer size (5) to a new buffer, one at a
  time, returns false for all appends but the last and true for the last. When the
  send loop of a client subscribed to the batched transactions then handles the
  signal \<open>newTxsMsg\<close>, it pushes the transactions appended, in the order they came,
  and leaves the client with an empty buffer; and on an empty buffer it pushes
  nothing and goes on, without error. The part of the send loop under the buffer's
  lock does the same.
\<close>

theorem buffer_fill_and_drain:
  assumes "length txs = NewTxBufferSize" and "IsValid newTxsMsg" and "SigNewTxs \<in> subs cl"
  shows "NewTxBufferSize = 5
       \<and> addTxs txs (newTxList NewTxBufferSize)
           = (replicate (NewTxBufferSize - 1) False @ [True], txs)
       \<and> sendLoop_signal IsValid n
           (cl\<lparr> newTxs := snd (addTxs txs (newTxList NewTxBufferSize)) \<rparr>) newTxsMsg
           = Inr (Some (TxsBody txs), cl\<lparr> newTxs := [] \<rparr>)
       \<and> sendLoop_signal IsValid n (cl\<lparr> newTxs := [] \<rparr>) newTxsMsg
           = Inr (None, cl\<lparr> newTxs := [] \<rparr>)
       \<and> drainNewTxs txs = (Some txs, [])
       \<and> drainNewTxs [] = (None, [])"
proof -
  have flags: "map (\<lambda>i. NewTxBufferSize \<le> i + 1) [0..<NewTxBufferSize]
        = replicate (NewTxBufferSize - 1) False @ [True]"
    by (simp add: NewTxBufferSize_def upt_conv_Cons eval_nat_numeral)
  from assms(1) have ne: "txs \<noteq> []" by (auto simp add: NewTxBufferSize_def)
  have sub: "SigNewTxs \<in> subs (cl\<lparr> newTxs := t \<rparr>)" for t using assms(3) by simp
  have full: "sendLoop_signal IsValid n (cl\<lparr> newTxs := txs \<rparr>) newTxsMsg
           = Inr (Some (TxsBody txs), cl\<lparr> newTxs := [] \<rparr>)"
    using sendLoop_signal_newTxs [where IsValid = IsValid and cl = "cl\<lparr> newTxs := txs \<rparr>" and n = n]
      assms(2) sub ne by simp
  have empty: "sendLoop_signal IsValid n (cl\<lparr> newTxs := [] \<rparr>) newTxsMsg
           = Inr (None, cl\<lparr> newTxs := [] \<rparr>)"
    using sendLoop_signal_newTxs [where IsValid = IsValid and cl = "cl\<lparr> newTxs := [] \<rparr>" and n = n]
      assms(2) sub by simp
  have five: "NewTxBufferSize = 5" by (simp add: NewTxBufferSize_def)
  have add: "addTxs txs (newTxList NewTxBufferSize)
           = (replicate (NewTxBufferSize - 1) False @ [True], txs)"
    using assms(1) flags by (simp add: addTxs_eq newTxList_def)
  have dr: "drainNewTxs txs = (Some txs, [])" "drainNewTxs [] = (None, [])"
    using ne by (simp_all add: drainNewTxs_def newTxList_def)
  from five add full empty dr show ?thesis by simp
qed

theorem buffer_fill_and_drain_witness:
  "length [MempoolTx ''a'', MempoolTx ''b'', MempoolTx ''c'', MempoolTx ''d'', MempoolTx ''e'']
     = NewTxBufferSize
   \<and> HubMessage_IsValid newTxsMsg
   \<and> SigNewTxs \<in> subs newTxsClient
   \<and> addTxs [MempoolTx ''a'', MempoolTx ''b'', MempoolTx ''c'', MempoolTx ''d'', MempoolTx ''e'']
       (newTxList NewTxBufferSize)
     = ([False, False, False, False, True],
        [MempoolTx ''a'', MempoolTx ''b'', MempoolTx ''c'', MempoolTx ''d'', MempoolTx ''e''])
   \<and> sendLoop_signal HubMessage_IsValid 1
       (newTxsClient\<lparr> newTxs :=
          [MempoolTx ''a'', MempoolTx ''b'', MempoolTx ''c'', MempoolTx ''d'', MempoolTx ''e''] \<rparr>)
       newTxsMsg
     = Inr (Some (TxsBody
              [MempoolTx ''a'', MempoolTx ''b'', MempoolTx ''c'', MempoolTx ''d'', MempoolTx ''e'']),
            newTxsClient)
   \<and> sendLoop_signal HubMessage_IsValid 1 newTxsClient newTxsMsg = Inr (None, newTxsClient)
   \<and> drainNewTxs
       [MempoolTx ''a'', MempoolTx ''b'', MempoolTx ''c'', MempoolTx ''d'', MempoolTx ''e'']
     = (Some [MempoolTx ''a'', MempoolTx ''b'', MempoolTx ''c'', MempoolTx ''d'', MempoolTx ''e''],
        [])"
proof -
  have len:
    "length [MempoolTx ''a'', MempoolTx ''b'', MempoolTx ''c'', MempoolTx ''d'', MempoolTx ''e'']
       = NewTxBufferSize"
    by (simp add: NewTxBufferSize_def)
  have v: "HubMessage_IsValid newTxsMsg"
    by (simp add: HubMessage_IsValid_def newTxsMsg_def)
  have s: "SigNewTxs \<in> subs newTxsClient"
    by (simp add: newTxsClient_def)
  have e: "newTxsClient\<lparr> newTxs := [] \<rparr> = newTxsClient"
    by (simp add: newTxsClient_def)
  have rep: "replicate (NewTxBufferSize - 1) False @ [True] = [False, False, False, False, True]"
    by (simp add: NewTxBufferSize_def eval_nat_numeral)
  note t = buffer_fill_and_drain [where IsValid = HubMessage_IsValid and cl = newTxsClient
      and n = 1, OF len v s]
  have add: "addTxs [MempoolTx ''a'', MempoolTx ''b'', MempoolTx ''c'', MempoolTx ''d'',
                     MempoolTx ''e''] (newTxList NewTxBufferSize)
     = ([False, False, False, False, True],
        [MempoolTx ''a'', MempoolTx ''b'', MempoolTx ''c'', MempoolTx ''d'', MempoolTx ''e''])"
    using t rep by (simp del: addTxs.simps)
  have full: "sendLoop_signal HubMessage_IsValid 1
       (newTxsClient\<lparr> newTxs :=
          [MempoolTx ''a'', MempoolTx ''b'', MempoolTx ''c'', MempoolTx ''d'', MempoolTx ''e''] \<rparr>)
       newTxsMsg
     = Inr (Some (TxsBody
              [MempoolTx ''a'', MempoolTx ''b'', MempoolTx ''c'', MempoolTx ''d'', MempoolTx ''e'']),
            newTxsClient)"
    using t add e by (simp del: addTxs.simps)
  have empty: "sendLoop_signal HubMessage_IsValid 1 newTxsClient newTxsMsg
     = Inr (None, newTxsClient)"
    using t e by (simp del: addTxs.simps)
  have dr: "drainNewTxs
       [MempoolTx ''a'', MempoolTx ''b'', MempoolTx ''c'', MempoolTx ''d'', MempoolTx ''e'']
     = (Some [MempoolTx ''a'', MempoolTx ''b'', MempoolTx ''c'', MempoolTx ''d'', MempoolTx ''e''],
        [])"
    using t by (simp del: addTxs.simps)
  from len v s add full empty dr show ?thesis by (simp del: addTxs.simps)
qed










text \<open>
  C1, on the run \<open>lateClientEvents\<close>. When the range of \<open>addTxToBuffer\<close> visits
  the first client and then the second, the buffer of the first client reaches the
  buffer size with the fifth transaction, and yet nothing is sent: both channels stay
  empty. The flag returned is the one of the client visited last. When the range
  visits the second client first, both clients are signalled.
\<close>

theorem addTxToBuffer_last_client_decides:
  "newTxsOf 0 (Run HubMessage_IsValid (lateClientEvents [0, 1]) NewWebsocketHub)
     = Some [MempoolTx ''a'', MempoolTx ''b'', MempoolTx ''c'', MempoolTx ''d'', MempoolTx ''e'']
   \<and> length [MempoolTx ''a'', MempoolTx ''b'', MempoolTx ''c'', MempoolTx ''d'', MempoolTx ''e'']
       = NewTxBufferSize
   \<and> chanBufOf 0 (Run HubMessage_IsValid (lateClientEvents [0, 1]) NewWebsocketHub) = Some []
   \<and> chanBufOf 1 (Run HubMessage_IsValid (lateClientEvents [0, 1]) NewWebsocketHub) = Some []
   \<and> chanBufOf 0 (Run HubMessage_IsValid (lateClientEvents [1, 0]) NewWebsocketHub)
       = Some [\<lparr> Signal = SigNewTxs, Msg = MempoolTxSlice [] \<rparr>]
   \<and> chanBufOf 1 (Run HubMessage_IsValid (lateClientEvents [1, 0]) NewWebsocketHub)
       = Some [\<lparr> Signal = SigNewTxs, Msg = MempoolTxSlice [] \<rparr>]"
  by (simp add: lateClientEvents_def run_eval)

subsection \<open>The receive loop\<close>

text \<open>
  C2, on a subscribe request whose message is one byte longer than the request limit
  of a new hub: the loop goes on, the client is as it was, and no response is written
  to the connection. The text "Request too large" is stored in the response, and the
  \<open>continue\<close> that follows skips the send at the end of the loop body. When the
  connection itself refuses the request, so that the receive fails with an error that
  is no timeout, the loop returns, and no response is written either.
\<close>

theorem receiveLoop_oversized_request:
  "length (Message \<lparr> EventId = ''subscribe'',
                     Message = replicate (MaxPayloadBytes + 1) CHR ''x'' \<rparr>)
     > requestLimit NewWebsocketHub
   \<and> receiveLoop_body ValidateSubscription src NewWebsocketHub sendOk
       (RecvMsg \<lparr> EventId = ''subscribe'',
                  Message = replicate (MaxPayloadBytes + 1) CHR ''x'' \<rparr>)
       newClient
     = Inr (Continue, None, newClient)
   \<and> receiveLoop_body ValidateSubscription src NewWebsocketHub sendOk
       (RecvError ''websocket: frame payload size exceeds limit'') newClient
     = Inr (Return, None, newClient)"
  by (simp add: receiveLoop_body_def NewWebsocketHub_def)

subsection \<open>Unregistration\<close>

text \<open>
  C6. Unregistering a key that is not in the registry returns the state as it is.
  Unregistering a registered client whose channel is open removes the entry and
  closes the channel; a second call for the same key then finds the key absent and
  returns the state as it is: no panic, and the closed channel is not closed again.
\<close>

theorem unregisterClient_twice:
  "(clients h k = None \<longrightarrow> unregisterClient k h = Inr h)
   \<and> (clients h k = Some cl \<and> spokes h k = Some ch \<and> \<not> chan_closed ch \<longrightarrow>
        (\<exists>h1. unregisterClient k h = Inr h1
            \<and> clients h1 k = None
            \<and> spokes h1 k = Some (ch\<lparr> chan_closed := True \<rparr>)
            \<and> unregisterClient k h1 = Inr h1))"
  by (simp add: unregisterClient_def close_chan_def Let_def)

theorem unregisterClient_twice_witness:
  "clients (snd (NewClientHubSpoke NewWebsocketHub)) 0 = Some newClient
   \<and> spokes (snd (NewClientHubSpoke NewWebsocketHub)) 0 = Some (make_chan 16)
   \<and> \<not> chan_closed (make_chan 16)
   \<and> (\<exists>h1. unregisterClient 0 (snd (NewClientHubSpoke NewWebsocketHub)) = Inr h1
          \<and> clients h1 0 = None
          \<and> spokes h1 0 = Some ((make_chan 16)\<lparr> chan_closed := True \<rparr>)
          \<and> unregisterClient 0 h1 = Inr h1)
   \<and> clients NewWebsocketHub 0 = None
   \<and> unregisterClient 0 NewWebsocketHub = Inr NewWebsocketHub"
proof -
  have a: "clients (snd (NewClientHubSpoke NewWebsocketHub)) 0 = Some newClient"
    by (simp add: NewClientHubSpoke_def NewWebsocketHub_def registerClient_def Let_def)
  have b: "spokes (snd (NewClientHubSpoke NewWebsocketHub)) 0 = Some (make_chan 16)"
    by (simp add: NewClientHubSpoke_def NewWebsocketHub_def registerClient_def Let_def)
  have c: "\<not> chan_closed (make_chan 16)"
    by (simp add: make_chan_def)
  have d: "clients NewWebsocketHub 0 = None"
    by (simp add: NewWebsocketHub_def)
  from unregisterClient_twice [of "snd (NewClientHubSpoke NewWebsocketHub)" 0 newClient
      "make_chan 16"]
    unregisterClient_twice [of NewWebsocketHub 0 newClient "make_chan 16"] a b c d
  show ?thesis by simp
qed

subsection \<open>The fan-out\<close>


lemma isSubscribed_no_panic:
  "Signal m = SigAddressTx \<longrightarrow> Msg m \<noteq> AddressMessagePtr None \<Longrightarrow>
     \<exists>b. isSubscribed cl m = Inr b"
  by (cases "Signal m"; cases "Msg m") (auto simp add: isSubscribed_def split: option.splits)

lemma signalOrUnregister_absent:
  "clients h k = None \<Longrightarrow> signalOrUnregister k m h = Inr h"
  by (simp add: signalOrUnregister_def)

lemma signalOrUnregister_unsubscribed:
  "clients h k = Some cl \<Longrightarrow> isSubscribed cl m = Inr False \<Longrightarrow> signalOrUnregister k m h = Inr h"
  by (simp add: signalOrUnregister_def)

lemma signalOrUnregister_room:
  assumes "clients h k = Some cl" "isSubscribed cl m = Inr True"
    "spokes h k = Some ch" "\<not> chan_closed ch" "length (chan_buf ch) < chan_cap ch"
  shows "signalOrUnregister k m h = Inr (h\<lparr> spokes := (spokes h)(k \<mapsto> ch\<lparr> chan_buf := chan_buf ch @ [m] \<rparr>) \<rparr>)"
  using assms by (simp add: signalOrUnregister_def trySend_def)

lemma signalOrUnregister_full:
  assumes "clients h k = Some cl" "isSubscribed cl m = Inr True"
    "spokes h k = Some ch" "\<not> chan_closed ch" "\<not> length (chan_buf ch) < chan_cap ch"
  shows "signalOrUnregister k m h =
     Inr (h\<lparr> clients := (clients h)(k := None), numClients := card (dom ((clients h)(k := None))),
             spokes := (spokes h)(k \<mapsto> ch\<lparr> chan_closed := True \<rparr>) \<rparr>)"
  using assms by (simp add: signalOrUnregister_def trySend_def unregisterClient_def close_chan_def Let_def)

lemma signalOrUnregister_outcome:
  assumes "clients h k = Some cl" "spokes h k = Some ch" "\<not> chan_closed ch"
    "Signal m = SigAddressTx \<longrightarrow> Msg m \<noteq> AddressMessagePtr None"
  shows "\<exists>h1. signalOrUnregister k m h = Inr h1
     \<and> clients h1 k = fst (outcome m cl ch) \<and> spokes h1 k = Some (snd (outcome m cl ch))
     \<and> (\<forall>j. j \<noteq> k \<longrightarrow> clients h1 j = clients h j \<and> spokes h1 j = spokes h j)"
proof -
  from isSubscribed_no_panic [OF assms(4)] obtain b where b: "isSubscribed cl m = Inr b" by blast
  show ?thesis
  proof (cases b)
    case False
    with b assms show ?thesis
      by (simp add: signalOrUnregister_unsubscribed outcome_def)
  next
    case True
    show ?thesis
    proof (cases "length (chan_buf ch) < chan_cap ch")
      case True
      with \<open>b\<close> b assms show ?thesis
        by (simp add: signalOrUnregister_room outcome_def)
    next
      case False
      with \<open>b\<close> b assms show ?thesis
        by (simp add: signalOrUnregister_full outcome_def)
    qed
  qed
qed

lemma fanOut_outcome:
  assumes "distinct ks"
    and "\<forall>k\<in>set ks. \<forall>cl. clients h k = Some cl \<longrightarrow> (\<exists>ch. spokes h k = Some ch \<and> \<not> chan_closed ch)"
    and "Signal m = SigAddressTx \<longrightarrow> Msg m \<noteq> AddressMessagePtr None"
  shows "\<exists>h'. fanOut ks m h = Inr h'
     \<and> (\<forall>k. k \<notin> set ks \<longrightarrow> clients h' k = clients h k \<and> spokes h' k = spokes h k)
     \<and> (\<forall>k\<in>set ks. \<forall>cl ch. clients h k = Some cl \<and> spokes h k = Some ch \<longrightarrow>
            clients h' k = fst (outcome m cl ch) \<and> spokes h' k = Some (snd (outcome m cl ch)))"
  using assms(1,2)
proof (induction ks arbitrary: h)
  case Nil
  show ?case by simp
next
  case (Cons k ks)
  have dist: "distinct ks" and knot: "k \<notin> set ks" using Cons.prems(1) by auto
  show ?case
  proof (cases "clients h k")
    case None
    have step: "signalOrUnregister k m h = Inr h" using None by (rule signalOrUnregister_absent)
    have "\<forall>j\<in>set ks. \<forall>cl. clients h j = Some cl \<longrightarrow> (\<exists>ch. spokes h j = Some ch \<and> \<not> chan_closed ch)"
      using Cons.prems(2) by simp
    from Cons.IH [OF dist this] obtain h' where
      h': "fanOut ks m h = Inr h'"
      "\<forall>j. j \<notin> set ks \<longrightarrow> clients h' j = clients h j \<and> spokes h' j = spokes h j"
      "\<forall>j\<in>set ks. \<forall>cl ch. clients h j = Some cl \<and> spokes h j = Some ch \<longrightarrow>
            clients h' j = fst (outcome m cl ch) \<and> spokes h' j = Some (snd (outcome m cl ch))"
      by blast
    have "fanOut (k # ks) m h = Inr h'" using step h'(1) by simp
    moreover have "\<forall>j. j \<notin> set (k # ks) \<longrightarrow> clients h' j = clients h j \<and> spokes h' j = spokes h j"
      using h'(2) by simp
    moreover have "\<forall>j\<in>set (k # ks). \<forall>cl ch. clients h j = Some cl \<and> spokes h j = Some ch \<longrightarrow>
            clients h' j = fst (outcome m cl ch) \<and> spokes h' j = Some (snd (outcome m cl ch))"
      using h'(3) None by simp
    ultimately show ?thesis by blast
  next
    case (Some cl)
    from Cons.prems(2) Some obtain ch where ch: "spokes h k = Some ch" "\<not> chan_closed ch"
      by auto
    from signalOrUnregister_outcome [OF Some ch assms(3)] obtain h1 where
      h1: "signalOrUnregister k m h = Inr h1"
      "clients h1 k = fst (outcome m cl ch)" "spokes h1 k = Some (snd (outcome m cl ch))"
      "\<forall>j. j \<noteq> k \<longrightarrow> clients h1 j = clients h j \<and> spokes h1 j = spokes h j"
      by blast
    have "\<forall>j\<in>set ks. \<forall>cl. clients h1 j = Some cl \<longrightarrow> (\<exists>ch. spokes h1 j = Some ch \<and> \<not> chan_closed ch)"
      using Cons.prems(2) h1(4) knot by auto
    from Cons.IH [OF dist this] obtain h' where
      h': "fanOut ks m h1 = Inr h'"
      "\<forall>j. j \<notin> set ks \<longrightarrow> clients h' j = clients h1 j \<and> spokes h' j = spokes h1 j"
      "\<forall>j\<in>set ks. \<forall>cl ch. clients h1 j = Some cl \<and> spokes h1 j = Some ch \<longrightarrow>
            clients h' j = fst (outcome m cl ch) \<and> spokes h' j = Some (snd (outcome m cl ch))"
      by blast
    have "fanOut (k # ks) m h = Inr h'" using h1(1) h'(1) by simp
    moreover have "\<forall>j. j \<notin> set (k # ks) \<longrightarrow> clients h' j = clients h j \<and> spokes h' j = spokes h j"
      using h'(2) h1(4) by simp
    moreover have "\<forall>j\<in>set (k # ks). \<forall>cl ch. clients h j = Some cl \<and> spokes h j = Some ch \<longrightarrow>
            clients h' j = fst (outcome m cl ch) \<and> spokes h' j = Some (snd (outcome m cl ch))"
    proof (intro ballI allI impI)
      fix j cl' ch'
      assume j: "j \<in> set (k # ks)" and c: "clients h j = Some cl' \<and> spokes h j = Some ch'"
      show "clients h' j = fst (outcome m cl' ch') \<and> spokes h' j = Some (snd (outcome m cl' ch'))"
      proof (cases "j = k")
        case True
        with c Some ch have "cl' = cl" "ch' = ch" by auto
        moreover have "clients h' k = clients h1 k \<and> spokes h' k = spokes h1 k"
          using h'(2) knot by simp
        ultimately show ?thesis using h1(2,3) True by simp
      next
        case False
        with j have jin: "j \<in> set ks" by simp
        from False h1(4) c have "clients h1 j = Some cl' \<and> spokes h1 j = Some ch'" by simp
        with h'(3) jin show ?thesis by blast
      qed
    qed
    ultimately show ?thesis by blast
  qed
qed

subsection \<open>The invariant of the registry, and shutdown\<close>


lemma registry_open_New: "registry_open NewWebsocketHub"
  by (simp add: registry_open_def NewWebsocketHub_def)

lemma addTxToBuffer_loop_frame:
  "addTxToBuffer_loop ks tx r h = (r', h') \<Longrightarrow>
     (\<forall>j. (clients h' j = None) = (clients h j = None)) \<and> spokes h' = spokes h"
proof (induction ks arbitrary: r h)
  case Nil
  then show ?case by simp
next
  case (Cons k ks)
  show ?case
  proof (cases "clients h k")
    case None
    with Cons show ?thesis by simp
  next
    case (Some cl)
    with Cons.prems have
      "addTxToBuffer_loop ks tx (fst (txList_addTxToBuffer tx (newTxs cl)))
         (h\<lparr> clients := (clients h)(k \<mapsto> cl\<lparr> newTxs := snd (txList_addTxToBuffer tx (newTxs cl)) \<rparr>) \<rparr>) = (r', h')"
      by (simp add: split_def Let_def)
    from Cons.IH [OF this] Some show ?thesis by simp
  qed
qed

lemma MaybeSendTxns_frame:
  assumes "MaybeSendTxns ks tx h = (r, h')"
  shows "(\<forall>j. (clients h' j = None) = (clients h j = None)) \<and> spokes h' = spokes h"
proof -
  obtain r1 h1 where a: "addTxToBuffer_loop ks tx False h = (r1, h1)"
    by (cases "addTxToBuffer_loop ks tx False h")
  from addTxToBuffer_loop_frame [OF a]
  have f: "(\<forall>j. (clients h1 j = None) = (clients h j = None)) \<and> spokes h1 = spokes h" .
  from assms a have "h' = h1 \<or> h' = h1\<lparr> bufferTickerChan := bufferTickerChan h1 @ [tickerSigReset] \<rparr>"
    by (auto simp add: MaybeSendTxns_def addTxToBuffer_def Let_def split: if_splits)
  with f show ?thesis by auto
qed

lemma registry_open_cong:
  "\<forall>j. (clients h' j = None) = (clients h j = None) \<Longrightarrow> spokes h' = spokes h \<Longrightarrow>
     registry_open h \<Longrightarrow> registry_open h'"
  by (simp add: registry_open_def)

lemma unregisterClient_open:
  assumes "unregisterClient k h = Inr h'" and "registry_open h"
  shows "registry_open h'"
proof (cases "clients h k")
  case None
  with assms show ?thesis by (simp add: unregisterClient_def)
next
  case (Some cl)
  with assms(2) obtain ch where ch: "spokes h k = Some ch" "\<not> chan_closed ch"
    by (auto simp add: registry_open_def)
  with Some assms(1) have
    "h' = h\<lparr> clients := (clients h)(k := None), numClients := card (dom ((clients h)(k := None))),
             spokes := (spokes h)(k \<mapsto> ch\<lparr> chan_closed := True \<rparr>) \<rparr>"
    by (simp add: unregisterClient_def close_chan_def Let_def)
  with assms(2) show ?thesis by (simp add: registry_open_def)
qed

lemma signalOrUnregister_open:
  assumes "signalOrUnregister k m h = Inr h'" and "registry_open h"
  shows "registry_open h'"
proof (cases "clients h k")
  case None
  with assms show ?thesis by (simp add: signalOrUnregister_absent)
next
  case (Some cl)
  with assms(2) obtain ch where ch: "spokes h k = Some ch" "\<not> chan_closed ch"
    by (auto simp add: registry_open_def)
  show ?thesis
  proof (cases "isSubscribed cl m")
    case (Inl p)
    with Some assms(1) show ?thesis by (simp add: signalOrUnregister_def)
  next
    case (Inr b)
    show ?thesis
    proof (cases b)
      case False
      with Inr Some assms show ?thesis by (simp add: signalOrUnregister_unsubscribed)
    next
      case True
      show ?thesis
      proof (cases "length (chan_buf ch) < chan_cap ch")
        case True
        with \<open>b\<close> Inr Some ch assms(1)
        have "h' = h\<lparr> spokes := (spokes h)(k \<mapsto> ch\<lparr> chan_buf := chan_buf ch @ [m] \<rparr>) \<rparr>"
          by (simp add: signalOrUnregister_room)
        with assms(2) ch show ?thesis by (auto simp add: registry_open_def)
      next
        case False
        with \<open>b\<close> Inr Some ch assms(1)
        have "h' = h\<lparr> clients := (clients h)(k := None),
                      numClients := card (dom ((clients h)(k := None))),
                      spokes := (spokes h)(k \<mapsto> ch\<lparr> chan_closed := True \<rparr>) \<rparr>"
          by (simp add: signalOrUnregister_full)
        with assms(2) show ?thesis by (simp add: registry_open_def)
      qed
    qed
  qed
qed

lemma fanOut_open:
  "fanOut ks m h = Inr h' \<Longrightarrow> registry_open h \<Longrightarrow> registry_open h'"
  by (induction ks arbitrary: h) (auto split: sum.splits dest: signalOrUnregister_open)

lemma signalClients_open:
  assumes "signalClients ks m h = Inr h'" and "registry_open h"
  shows "registry_open h'"
proof -
  from assms(1) obtain h1 where h1: "fanOut ks m h = Inr h1"
    and "h' = h1 \<or> h' = h1\<lparr> timeToSendTxBuffer := False \<rparr>"
    by (auto simp add: signalClients_def split: sum.splits if_splits)
  with fanOut_open [OF h1 assms(2)] show ?thesis by (auto simp add: registry_open_def)
qed

lemma relay_skip:
  "card (dom (clients h)) = 0 \<or> \<not> v m \<Longrightarrow> relay v ks1 ks2 m h = Inr h"
  by (auto simp add: relay_def)

lemma relay_other:
  assumes "relay v ks1 ks2 m h = Inr h'" and "Signal m \<noteq> SigNewTx"
  shows "h' = h \<or> signalClients ks2 m h = Inr h'"
proof (cases "card (dom (clients h)) = 0 \<or> \<not> v m")
  case True
  then have "relay v ks1 ks2 m h = Inr h" by (rule relay_skip)
  with assms(1) show ?thesis by simp
next
  case False
  then have f: "card (dom (clients h)) \<noteq> 0" "v m" by auto
  show ?thesis
  proof (cases "Signal m = SigAddressTx")
    case True
    with assms(1) f show ?thesis
      by (cases "Msg m") (simp_all add: relay_def split: option.splits)
  next
    case False
    with assms f show ?thesis
      by (cases "Signal m") (simp_all add: relay_def)
  qed
qed

lemma relay_newtx:
  assumes "relay v ks1 ks2 m h = Inr h'" and "Signal m = SigNewTx"
    and "MaybeSendTxns ks1 tx h = (r, h1)" and "Msg m = MempoolTxPtr (Some tx)"
  shows "h' = h \<or> h' = h1
       \<or> signalClients ks2 \<lparr> Signal = SigNewTxs, Msg = MempoolTxSlice [] \<rparr> h1 = Inr h'"
proof (cases "card (dom (clients h)) = 0 \<or> \<not> v m")
  case True
  then have "relay v ks1 ks2 m h = Inr h" by (rule relay_skip)
  with assms(1) show ?thesis by simp
next
  case False
  then have f: "card (dom (clients h)) \<noteq> 0" "v m" by auto
  show ?thesis
    using assms f by (auto simp add: relay_def split: if_splits)
qed

lemma relay_newtx_nil:
  assumes "relay v ks1 ks2 m h = Inr h'" and "Signal m = SigNewTx"
    and "\<forall>tx. Msg m \<noteq> MempoolTxPtr (Some tx)"
  shows "h' = h"
proof (cases "card (dom (clients h)) = 0 \<or> \<not> v m")
  case True
  then have "relay v ks1 ks2 m h = Inr h" by (rule relay_skip)
  with assms(1) show ?thesis by simp
next
  case False
  then have f: "card (dom (clients h)) \<noteq> 0" "v m" by auto
  with assms show ?thesis
    by (cases "Msg m") (simp_all add: relay_def split: option.splits)
qed

lemma relay_open:
  assumes "relay v ks1 ks2 m h = Inr h'" and "registry_open h"
  shows "registry_open h'"
proof (cases "Signal m = SigNewTx")
  case False
  from relay_other [OF assms(1) False] assms(2) show ?thesis
    by (auto dest: signalClients_open)
next
  case True
  show ?thesis
  proof (cases "\<exists>tx. Msg m = MempoolTxPtr (Some tx)")
    case False
    then have "\<forall>tx. Msg m \<noteq> MempoolTxPtr (Some tx)" by simp
    from relay_newtx_nil [OF assms(1) True this] assms(2) show ?thesis by simp
  next
    case True
    then obtain tx where tx: "Msg m = MempoolTxPtr (Some tx)" by blast
    obtain r h1 where mst: "MaybeSendTxns ks1 tx h = (r, h1)" by (cases "MaybeSendTxns ks1 tx h")
    from MaybeSendTxns_frame [OF mst] assms(2) have o1: "registry_open h1"
      by (blast intro: registry_open_cong)
    from relay_newtx [OF assms(1) \<open>Signal m = SigNewTx\<close> mst tx] o1 assms(2)
    show ?thesis by (auto dest: signalClients_open)
  qed
qed

lemma NewClientHubSpoke_open:
  "registry_open h \<Longrightarrow> registry_open (snd (NewClientHubSpoke h))"
  by (auto simp add: NewClientHubSpoke_def registerClient_def registry_open_def Let_def make_chan_def)

lemma set_client_open:
  "clients h k = Some cl \<Longrightarrow> registry_open h \<Longrightarrow> registry_open (set_client k cl' h)"
  by (auto simp add: set_client_def registry_open_def)

lemma step_open:
  assumes "step v e h = Running h'" "registry_open h"
  shows "registry_open h'"
proof (cases e)
  case (RelayRecv m ks1 ks2)
  with assms show ?thesis
    by (auto simp add: step_def continue_with_def split: sum.splits dest: relay_open)
next
  case (RelayClosed ks)
  with assms show ?thesis by (auto simp add: step_def Run_return_def split: sum.splits)
next
  case RegisterRecv
  with assms show ?thesis by (auto simp add: step_def NewClientHubSpoke_open)
next
  case (UnregisterRecv k)
  with assms show ?thesis
    by (auto simp add: step_def continue_with_def split: sum.splits dest: unregisterClient_open)
next
  case (QuitRecv ks)
  with assms show ?thesis by (auto simp add: step_def Run_return_def split: sum.splits if_splits)
next
  case TickerFired
  with assms show ?thesis by (auto simp add: step_def registry_open_def)
next
  case (ClientSubscribe k m)
  with assms show ?thesis
    by (auto simp add: step_def split: option.splits sum.splits intro: set_client_open)
next
  case (ClientUnsubscribe k m)
  with assms show ?thesis
    by (auto simp add: step_def split: option.splits sum.splits intro: set_client_open)
next
  case (ClientUnsubscribeAll k)
  with assms show ?thesis
    by (auto simp add: step_def split: option.splits sum.splits intro: set_client_open)
next
  case (SendLoopRecv k)
  have frame: "registry_open (h\<lparr> spokes := (spokes h)(k \<mapsto> ch\<lparr> chan_buf := rest \<rparr>) \<rparr>)"
    if "spokes h k = Some ch" for ch rest
    using that assms(2) by (auto simp add: registry_open_def)
  from SendLoopRecv assms show ?thesis
    by (auto simp add: step_def Let_def split: option.splits list.splits sum.splits
        intro!: set_client_open frame)
qed

lemma Run_open:
  "Run v evs h = Running h' \<Longrightarrow> registry_open h \<Longrightarrow> registry_open h'"
proof (induction evs arbitrary: h)
  case Nil
  then show ?case by simp
next
  case (Cons e evs)
  then show ?case by (auto split: RunState.splits dest: step_open)
qed

lemma Run_append:
  "Run v (xs @ ys) h =
     (case Run v xs h of Running h1 \<Rightarrow> Run v ys h1 | Stopped h1 \<Rightarrow> Stopped h1 | Panicked p \<Rightarrow> Panicked p)"
  by (induction xs arbitrary: h) (auto split: RunState.splits)

lemma unregisterAllClients_closes:
  assumes "distinct ks"
    and "\<forall>k\<in>set ks. \<exists>ch. spokes h k = Some ch \<and> \<not> chan_closed ch"
  shows "\<exists>h'. unregisterAllClients ks h = Inr h'
     \<and> (\<forall>k. clients h' k = (if k \<in> set ks then None else clients h k))
     \<and> (\<forall>k\<in>set ks. \<exists>ch. spokes h k = Some ch \<and> spokes h' k = Some (ch\<lparr> chan_closed := True \<rparr>))
     \<and> (\<forall>k. k \<notin> set ks \<longrightarrow> spokes h' k = spokes h k)
     \<and> numClients h' = numClients h \<and> bufferTickerChan h' = bufferTickerChan h
     \<and> timeToSendTxBuffer h' = timeToSendTxBuffer h \<and> quitClosed h' = quitClosed h"
  using assms
proof (induction ks arbitrary: h)
  case Nil
  show ?case by simp
next
  case (Cons k ks)
  from Cons.prems obtain ch where ch: "spokes h k = Some ch" "\<not> chan_closed ch" by auto
  define h1 where "h1 = h\<lparr> clients := (clients h)(k := None), spokes := (spokes h)(k \<mapsto> ch\<lparr> chan_closed := True \<rparr>) \<rparr>"
  have step: "unregisterAllClients (k # ks) h = unregisterAllClients ks h1"
    using ch by (simp add: h1_def close_chan_def Let_def)
  have dist: "distinct ks" and knot: "k \<notin> set ks" using Cons.prems(1) by auto
  have "\<forall>j\<in>set ks. \<exists>ch. spokes h1 j = Some ch \<and> \<not> chan_closed ch"
    using Cons.prems(2) knot by (auto simp add: h1_def)
  from Cons.IH [OF dist this] obtain h' where
    h': "unregisterAllClients ks h1 = Inr h'"
      "\<forall>j. clients h' j = (if j \<in> set ks then None else clients h1 j)"
      "\<forall>j\<in>set ks. \<exists>ch. spokes h1 j = Some ch \<and> spokes h' j = Some (ch\<lparr> chan_closed := True \<rparr>)"
      "\<forall>j. j \<notin> set ks \<longrightarrow> spokes h' j = spokes h1 j"
      "numClients h' = numClients h1 \<and> bufferTickerChan h' = bufferTickerChan h1
       \<and> timeToSendTxBuffer h' = timeToSendTxBuffer h1 \<and> quitClosed h' = quitClosed h1"
    by blast
  have a: "\<forall>j. clients h' j = (if j \<in> set (k # ks) then None else clients h j)"
    using h'(2) by (simp add: h1_def)
  have b: "\<forall>j\<in>set (k # ks). \<exists>ch. spokes h j = Some ch \<and> spokes h' j = Some (ch\<lparr> chan_closed := True \<rparr>)"
  proof
    fix j assume j: "j \<in> set (k # ks)"
    show "\<exists>ch. spokes h j = Some ch \<and> spokes h' j = Some (ch\<lparr> chan_closed := True \<rparr>)"
    proof (cases "j = k")
      case True
      with h'(4) knot ch show ?thesis by (simp add: h1_def)
    next
      case False
      with j h'(3) show ?thesis by (auto simp add: h1_def)
    qed
  qed
  have c: "\<forall>j. j \<notin> set (k # ks) \<longrightarrow> spokes h' j = spokes h j"
    using h'(4) by (simp add: h1_def)
  have d: "numClients h' = numClients h \<and> bufferTickerChan h' = bufferTickerChan h
       \<and> timeToSendTxBuffer h' = timeToSendTxBuffer h \<and> quitClosed h' = quitClosed h"
    using h'(5) by (simp add: h1_def)
  from step h'(1) a b c d show ?case by simp
qed

text \<open>
  C9. Let the loop, started on a new hub, be waiting in its select after any events,
  and let the quit signal arrive or \<open>HubRelay\<close> be closed. Then the loop returns,
  whatever events follow, and they change nothing; the registry is empty; every
  channel registered at that moment was open and is now closed, which \<open>close\<close>
  does once, since closing a closed channel panics; and no other channel is touched.
\<close>

theorem Run_shutdown:
  assumes run: "Run IsValid evs NewWebsocketHub = Running h"
    and "distinct ks" and "set ks = dom (clients h)"
    and e: "e = QuitRecv ks \<or> e = RelayClosed ks"
  shows "\<exists>h'. (\<forall>evs'. Run IsValid (evs @ e # evs') NewWebsocketHub = Stopped h')
     \<and> clients h' = Map.empty
     \<and> (\<forall>k\<in>dom (clients h). \<exists>ch. spokes h k = Some ch \<and> \<not> chan_closed ch
            \<and> spokes h' k = Some (ch\<lparr> chan_closed := True \<rparr>))
     \<and> (\<forall>k. k \<notin> dom (clients h) \<longrightarrow> spokes h' k = spokes h k)"
proof -
  have op: "registry_open h" using Run_open [OF run registry_open_New] .
  have ret: "\<exists>h'. Run_return ks g = Stopped h'
     \<and> clients h' = Map.empty
     \<and> (\<forall>k\<in>dom (clients h). \<exists>ch. spokes h k = Some ch \<and> \<not> chan_closed ch
            \<and> spokes h' k = Some (ch\<lparr> chan_closed := True \<rparr>))
     \<and> (\<forall>k. k \<notin> dom (clients h) \<longrightarrow> spokes h' k = spokes h k)"
    if g: "clients g = clients h" "spokes g = spokes h" for g
  proof -
    have pre: "\<forall>k\<in>set ks. \<exists>ch. spokes g k = Some ch \<and> \<not> chan_closed ch"
      using op assms(3) g by (auto simp add: registry_open_def)
    from unregisterAllClients_closes [OF assms(2) pre] obtain h' where
      h': "unregisterAllClients ks g = Inr h'"
        "\<forall>k. clients h' k = (if k \<in> set ks then None else clients g k)"
        "\<forall>k\<in>set ks. \<exists>ch. spokes g k = Some ch \<and> spokes h' k = Some (ch\<lparr> chan_closed := True \<rparr>)"
        "\<forall>k. k \<notin> set ks \<longrightarrow> spokes h' k = spokes g k"
      by blast
    have "clients h' = Map.empty"
    proof
      fix k show "clients h' k = None"
        using h'(2) assms(3) g by (cases "k \<in> set ks") (auto simp add: domIff)
    qed
    moreover have "\<forall>k\<in>dom (clients h). \<exists>ch. spokes h k = Some ch \<and> \<not> chan_closed ch
            \<and> spokes h' k = Some (ch\<lparr> chan_closed := True \<rparr>)"
    proof
      fix k assume k: "k \<in> dom (clients h)"
      with op obtain ch where ch: "spokes h k = Some ch" "\<not> chan_closed ch"
        by (auto simp add: registry_open_def)
      from k assms(3) have "k \<in> set ks" by simp
      with h'(3) g ch show "\<exists>ch. spokes h k = Some ch \<and> \<not> chan_closed ch
            \<and> spokes h' k = Some (ch\<lparr> chan_closed := True \<rparr>)" by auto
    qed
    moreover have "\<forall>k. k \<notin> dom (clients h) \<longrightarrow> spokes h' k = spokes h k"
      using h'(4) assms(3) g by simp
    ultimately show ?thesis using h'(1) by (simp add: Run_return_def)
  qed
  have "\<exists>h'. step IsValid e h = Stopped h'
     \<and> clients h' = Map.empty
     \<and> (\<forall>k\<in>dom (clients h). \<exists>ch. spokes h k = Some ch \<and> \<not> chan_closed ch
            \<and> spokes h' k = Some (ch\<lparr> chan_closed := True \<rparr>))
     \<and> (\<forall>k. k \<notin> dom (clients h) \<longrightarrow> spokes h' k = spokes h k)"
  proof (cases "e = QuitRecv ks")
    case True
    show ?thesis
    proof (cases "quitClosed h")
      case True
      with \<open>e = QuitRecv ks\<close> ret [of h] show ?thesis by (simp add: step_def)
    next
      case False
      with \<open>e = QuitRecv ks\<close>
        ret [of "h\<lparr> quitClosed := True, bufferTickerChan := bufferTickerChan h @ [tickerSigStop] \<rparr>"]
      show ?thesis by (simp add: step_def)
    qed
  next
    case False
    with e have "e = RelayClosed ks" by simp
    with ret [of h] show ?thesis by (simp add: step_def)
  qed
  then obtain h' where h': "step IsValid e h = Stopped h'"
    "clients h' = Map.empty"
    "\<forall>k\<in>dom (clients h). \<exists>ch. spokes h k = Some ch \<and> \<not> chan_closed ch
            \<and> spokes h' k = Some (ch\<lparr> chan_closed := True \<rparr>)"
    "\<forall>k. k \<notin> dom (clients h) \<longrightarrow> spokes h' k = spokes h k"
    by blast
  have "\<forall>evs'. Run IsValid (evs @ e # evs') NewWebsocketHub = Stopped h'"
    using run h'(1) by (simp add: Run_append)
  with h'(2,3,4) show ?thesis by blast
qed

lemma twoClients_run:
  "Run HubMessage_IsValid twoClientsEvents NewWebsocketHub = Running twoClients"
  by (simp add: twoClientsEvents_def twoClients_def blockMsg_def blockClient_def run_eval)

theorem Run_shutdown_witness:
  "Run HubMessage_IsValid twoClientsEvents NewWebsocketHub = Running twoClients
   \<and> distinct [1, 0 :: nat]
   \<and> set [1, 0] = dom (clients twoClients)
   \<and> (\<exists>h'. (\<forall>evs'. Run HubMessage_IsValid (twoClientsEvents @ QuitRecv [1, 0] # evs')
                       NewWebsocketHub = Stopped h')
         \<and> clients h' = Map.empty
         \<and> spokes h' 0 = Some \<lparr> chan_cap = 16, chan_buf = [blockMsg], chan_closed = True \<rparr>
         \<and> spokes h' 1 = Some \<lparr> chan_cap = 16, chan_buf = [], chan_closed = True \<rparr>)"
proof -
  have d: "distinct [1, 0 :: nat]" by simp
  have s: "set [1, 0] = dom (clients twoClients)" by (auto simp add: twoClients_def)
  have e: "QuitRecv [1, 0] = QuitRecv [1, 0] \<or> QuitRecv [1, 0] = RelayClosed [1, 0]" by simp
  from Run_shutdown [OF twoClients_run d s e] obtain h' where
    h': "\<forall>evs'. Run HubMessage_IsValid (twoClientsEvents @ QuitRecv [1, 0] # evs')
            NewWebsocketHub = Stopped h'"
      "clients h' = Map.empty"
      "\<forall>k\<in>dom (clients twoClients). \<exists>ch. spokes twoClients k = Some ch \<and> \<not> chan_closed ch
            \<and> spokes h' k = Some (ch\<lparr> chan_closed := True \<rparr>)"
    by blast
  from s have in0: "0 \<in> dom (clients twoClients)" and in1: "1 \<in> dom (clients twoClients)"
    by auto
  have k0: "spokes h' 0 = Some \<lparr> chan_cap = 16, chan_buf = [blockMsg], chan_closed = True \<rparr>"
    using bspec [OF h'(3) in0] by (auto simp add: twoClients_def make_chan_def)
  have k1: "spokes h' 1 = Some \<lparr> chan_cap = 16, chan_buf = [], chan_closed = True \<rparr>"
    using bspec [OF h'(3) in1] by (auto simp add: twoClients_def make_chan_def)
  from twoClients_run d s h'(1,2) k0 k1 show ?thesis by blast
qed

subsection \<open>Backpressure\<close>

text \<open>
  C5. Let the loop, started on a new hub, be waiting in its select after any events,
  and let it fan out a message (an address event with its address message, or an
  event of another kind). The fan-out does not panic, whatever the order of its
  range. Every registered client has an open channel of capacity 16, and: if the
  client is subscribed to the message and its channel holds fewer than 16 messages,
  the message is queued at the end of the channel and the client stays registered;
  if it is subscribed and the channel is full, the client is removed from the
  registry and its channel is closed; if it is not subscribed, nothing changes for
  it. What happens to a client depends on that client and its channel alone.
\<close>

theorem fanOut_backpressure:
  assumes run: "Run IsValid evs NewWebsocketHub = Running h"
    and "distinct ks" and "set ks = dom (clients h)"
    and "Signal m = SigAddressTx \<longrightarrow> Msg m \<noteq> AddressMessagePtr None"
  shows "\<exists>h'. fanOut ks m h = Inr h'
     \<and> (\<forall>k\<in>dom (clients h). \<exists>cl ch. clients h k = Some cl \<and> spokes h k = Some ch
          \<and> \<not> chan_closed ch \<and> chan_cap ch = 16 \<and>
          (if isSubscribed cl m = Inr True
           then (if length (chan_buf ch) < 16
                 then clients h' k = Some cl
                    \<and> spokes h' k = Some (ch\<lparr> chan_buf := chan_buf ch @ [m] \<rparr>)
                 else clients h' k = None
                    \<and> spokes h' k = Some (ch\<lparr> chan_closed := True \<rparr>))
           else clients h' k = Some cl \<and> spokes h' k = Some ch))"
proof -
  have op: "registry_open h" using Run_open [OF run registry_open_New] .
  have pre: "\<forall>k\<in>set ks. \<forall>cl. clients h k = Some cl \<longrightarrow>
               (\<exists>ch. spokes h k = Some ch \<and> \<not> chan_closed ch)"
    using op by (auto simp add: registry_open_def)
  from fanOut_outcome [OF assms(2) pre assms(4)] obtain h' where
    h': "fanOut ks m h = Inr h'"
      "\<forall>k\<in>set ks. \<forall>cl ch. clients h k = Some cl \<and> spokes h k = Some ch \<longrightarrow>
            clients h' k = fst (outcome m cl ch) \<and> spokes h' k = Some (snd (outcome m cl ch))"
    by blast
  have "\<exists>cl ch. clients h k = Some cl \<and> spokes h k = Some ch
          \<and> \<not> chan_closed ch \<and> chan_cap ch = 16 \<and>
          (if isSubscribed cl m = Inr True
           then (if length (chan_buf ch) < 16
                 then clients h' k = Some cl
                    \<and> spokes h' k = Some (ch\<lparr> chan_buf := chan_buf ch @ [m] \<rparr>)
                 else clients h' k = None
                    \<and> spokes h' k = Some (ch\<lparr> chan_closed := True \<rparr>))
           else clients h' k = Some cl \<and> spokes h' k = Some ch)"
    if k: "k \<in> dom (clients h)" for k
  proof -
    from k obtain cl where cl: "clients h k = Some cl" by auto
    with op obtain ch where ch: "spokes h k = Some ch" "\<not> chan_closed ch" "chan_cap ch = 16"
      by (auto simp add: registry_open_def)
    from k assms(3) have "k \<in> set ks" by simp
    with h'(2) cl ch have
      "clients h' k = fst (outcome m cl ch) \<and> spokes h' k = Some (snd (outcome m cl ch))"
      by blast
    with cl ch show ?thesis by (auto simp add: outcome_def)
  qed
  with h'(1) show ?thesis by blast
qed

lemma threeClients_run:
  "Run HubMessage_IsValid threeClientsEvents NewWebsocketHub = Running threeClients"
  by (simp add: threeClientsEvents_def threeClients_def fullChan_def blockMsg_def
      blockClient_def run_eval sendLoop_signal_def eval_nat_numeral)

theorem fanOut_backpressure_witness:
  "Run HubMessage_IsValid threeClientsEvents NewWebsocketHub = Running threeClients
   \<and> distinct [2, 0, 1 :: nat]
   \<and> set [2, 0, 1] = dom (clients threeClients)
   \<and> Signal blockMsg = SigNewBlock
   \<and> spokes threeClients 0 = Some fullChan \<and> length (chan_buf fullChan) = 16
   \<and> (\<exists>h'. fanOut [2, 0, 1] blockMsg threeClients = Inr h'
         \<and> clients h' 0 = None
         \<and> spokes h' 0 = Some (fullChan\<lparr> chan_closed := True \<rparr>)
         \<and> clients h' 1 = Some blockClient
         \<and> spokes h' 1 = Some ((make_chan 16)\<lparr> chan_buf := [blockMsg] \<rparr>)
         \<and> clients h' 2 = Some newClient
         \<and> spokes h' 2 = Some (make_chan 16))"
proof -
  have d: "distinct [2, 0, 1 :: nat]" by simp
  have s: "set [2, 0, 1] = dom (clients threeClients)"
    by (auto simp add: threeClients_def)
  have n: "Signal blockMsg = SigNewBlock" by (simp add: blockMsg_def)
  then have n': "Signal blockMsg = SigAddressTx \<longrightarrow> Msg blockMsg \<noteq> AddressMessagePtr None"
    by simp
  have c: "clients threeClients 0 = Some blockClient" "clients threeClients 1 = Some blockClient"
    "clients threeClients 2 = Some newClient"
    "spokes threeClients 0 = Some fullChan" "spokes threeClients 1 = Some (make_chan 16)"
    "spokes threeClients 2 = Some (make_chan 16)"
    by (simp_all add: threeClients_def)
  have i: "isSubscribed blockClient blockMsg = Inr True"
    "isSubscribed newClient blockMsg = Inr False"
    by (simp_all add: isSubscribed_def blockClient_def blockMsg_def newClient_def)
  have l: "length (chan_buf fullChan) = 16" "length (chan_buf (make_chan 16)) = 0"
    by (simp_all add: fullChan_def make_chan_def)
  from fanOut_backpressure [OF threeClients_run d s n'] obtain h' where
    h': "fanOut [2, 0, 1] blockMsg threeClients = Inr h'"
    "\<forall>k\<in>dom (clients threeClients). \<exists>cl ch.
          clients threeClients k = Some cl \<and> spokes threeClients k = Some ch
          \<and> \<not> chan_closed ch \<and> chan_cap ch = 16 \<and>
          (if isSubscribed cl blockMsg = Inr True
           then (if length (chan_buf ch) < 16
                 then clients h' k = Some cl
                    \<and> spokes h' k = Some (ch\<lparr> chan_buf := chan_buf ch @ [blockMsg] \<rparr>)
                 else clients h' k = None
                    \<and> spokes h' k = Some (ch\<lparr> chan_closed := True \<rparr>))
           else clients h' k = Some cl \<and> spokes h' k = Some ch)"
    by blast
  from s have in0: "0 \<in> dom (clients threeClients)" and in1: "1 \<in> dom (clients threeClients)"
    and in2: "2 \<in> dom (clients threeClients)" by auto
  have k0: "clients h' 0 = None \<and> spokes h' 0 = Some (fullChan\<lparr> chan_closed := True \<rparr>)"
    using bspec [OF h'(2) in0] c i l by auto
  have k1: "clients h' 1 = Some blockClient
      \<and> spokes h' 1 = Some ((make_chan 16)\<lparr> chan_buf := [blockMsg] \<rparr>)"
    using bspec [OF h'(2) in1] c i l by (auto simp add: make_chan_def)
  have k2: "clients h' 2 = Some newClient \<and> spokes h' 2 = Some (make_chan 16)"
    using bspec [OF h'(2) in2] c i l by auto
  from threeClients_run h'(1) d s n c l k0 k1 k2 show ?thesis by simp
qed

end
